theory Spec2Isabelle
  imports Complex_Main
begin

text \<open>
  The retrieval pipeline of the RAG chatbot: the chunker, the ingestion of documents into
  the vector store, search, the selection of contexts by distance, and the synthesis of
  the answer with its deterministic fallback, as \<^verbatim>\<open>backend/rag_pipeline.py\<close> and
  \<^verbatim>\<open>backend/main.py\<close> have them, followed by what holds of them.
\<close>

section \<open>Python strings\<close>

text \<open>
  A Python \<^verbatim>\<open>str\<close> is modelled as a \<^typ>\<open>string\<close>; every \<^typ>\<open>char\<close> stands for one code
  point below 256, so \<^const>\<open>length\<close> is Python's \<^verbatim>\<open>len\<close>.  An \<^verbatim>\<open>int\<close> is an
  \<^typ>\<open>int\<close>.  The functions of this section are the methods of \<^verbatim>\<open>str\<close> that
  \<^verbatim>\<open>backend/rag_pipeline.py\<close> and \<^verbatim>\<open>backend/main.py\<close> call.
\<close>

definition isspace :: "char \<Rightarrow> bool" where
  \<comment> \<open>\<^verbatim>\<open>str.isspace\<close> on the code points below 256\<close>
  "isspace c = (of_char c \<in> {9, 10, 11, 12, 13, 28, 29, 30, 31, 32, 133, 160 :: nat})"

definition str_strip :: "string \<Rightarrow> string" where
  \<comment> \<open>\<^verbatim>\<open>s.strip()\<close>\<close>
  "str_strip s = rev (dropWhile isspace (rev (dropWhile isspace s)))"

definition slice_index :: "nat \<Rightarrow> int \<Rightarrow> nat" where
  \<comment> \<open>how Python adjusts a slice bound: a negative bound counts from the end, and the
      result is clipped to \<open>0 .. n\<close>\<close>
  "slice_index n i = (if i < 0 then nat (int n + i) else min (nat i) n)"

definition str_slice :: "string \<Rightarrow> int \<Rightarrow> int \<Rightarrow> string" where
  \<comment> \<open>\<^verbatim>\<open>s[i:j]\<close>\<close>
  "str_slice s i j =
     (let a = slice_index (length s) i; b = slice_index (length s) j
      in take (b - a) (drop a s))"

definition occurs_at :: "string \<Rightarrow> string \<Rightarrow> nat \<Rightarrow> bool" where
  "occurs_at s sub p = (take (length sub) (drop p s) = sub)"

definition str_rfind :: "string \<Rightarrow> string \<Rightarrow> int \<Rightarrow> int \<Rightarrow> int" where
  \<comment> \<open>\<^verbatim>\<open>s.rfind(sub, i, j)\<close> for a non-empty \<open>sub\<close>: the highest position of an
      occurrence of \<open>sub\<close> that lies inside \<^verbatim>\<open>s[i:j]\<close>, or \<open>-1\<close>\<close>
  "str_rfind s sub i j =
     (let a = slice_index (length s) i; b = slice_index (length s) j
      in case List.find (occurs_at s sub) (rev [a ..< Suc b - length sub]) of
           None \<Rightarrow> - 1
         | Some p \<Rightarrow> int p)"

definition str_rfind_all :: "string \<Rightarrow> string \<Rightarrow> int" where
  \<comment> \<open>\<^verbatim>\<open>s.rfind(sub)\<close>, over the whole of \<open>s\<close>\<close>
  "str_rfind_all s sub = str_rfind s sub 0 (int (length s))"

definition str_startswith :: "string \<Rightarrow> string \<Rightarrow> bool" where
  "str_startswith s p = (take (length p) s = p)"

definition str_endswith :: "string \<Rightarrow> string \<Rightarrow> bool" where
  "str_endswith s p = (length p \<le> length s \<and> drop (length s - length p) s = p)"

definition lower_char :: "char \<Rightarrow> char" where
  \<comment> \<open>\<^verbatim>\<open>str.lower\<close> on one code point below 256: the capital letters of ASCII and
      of Latin-1 move 32 places up\<close>
  "lower_char c =
     (let n = (of_char c :: nat)
      in if (65 \<le> n \<and> n \<le> 90) \<or> (192 \<le> n \<and> n \<le> 222 \<and> n \<noteq> 215)
         then char_of (n + 32) else c)"

definition str_lower :: "string \<Rightarrow> string" where
  "str_lower s = map lower_char s"

fun str_join :: "string \<Rightarrow> string list \<Rightarrow> string" where
  \<comment> \<open>\<^verbatim>\<open>sep.join(xs)\<close>\<close>
  "str_join sep [] = []"
| "str_join sep [x] = x"
| "str_join sep (x # y # ys) = x @ sep @ str_join sep (y # ys)"

fun split_ws :: "string \<Rightarrow> string \<Rightarrow> string list" where
  \<comment> \<open>\<^verbatim>\<open>s.split()\<close>, with the word read so far as first argument\<close>
  "split_ws cur [] = (if cur = [] then [] else [cur])"
| "split_ws cur (c # cs) =
     (if isspace c then (if cur = [] then split_ws [] cs else cur # split_ws [] cs)
      else split_ws (cur @ [c]) cs)"

definition str_split :: "string \<Rightarrow> string list" where
  \<comment> \<open>\<^verbatim>\<open>s.split()\<close>: the maximal runs of characters that are not white space\<close>
  "str_split s = split_ws [] s"

function split_sep :: "string \<Rightarrow> string \<Rightarrow> string \<Rightarrow> string list" where
  \<comment> \<open>\<^verbatim>\<open>s.split(sep)\<close> for a non-empty \<open>sep\<close>, with the piece read so far as second
      argument\<close>
  "split_sep sep cur s =
     (if s = [] then [cur]
      else if sep \<noteq> [] \<and> take (length sep) s = sep
        then cur # split_sep sep [] (drop (length sep) s)
      else split_sep sep (cur @ [hd s]) (tl s))"
  by pat_completeness auto
termination
  by (relation "measure (\<lambda>(sep, cur, s). length s)") auto

definition str_split_on :: "string \<Rightarrow> string \<Rightarrow> string list" where
  "str_split_on s sep = split_sep sep [] s"

definition digit_char :: "nat \<Rightarrow> char" where
  "digit_char d = char_of (48 + d)"

function str_nat :: "nat \<Rightarrow> string" where
  \<comment> \<open>\<^verbatim>\<open>str(n)\<close> for an \<^verbatim>\<open>int\<close> that is not negative\<close>
  "str_nat n = (if n < 10 then [digit_char n] else str_nat (n div 10) @ [digit_char (n mod 10)])"
  by pat_completeness auto
termination
  by (relation "measure id") auto

declare str_nat.simps [simp del] split_sep.simps [simp del]

section \<open>The chunker: \<^verbatim>\<open>RAGPipeline._chunk_text\<close>\<close>

definition window_end :: "string \<Rightarrow> int \<Rightarrow> int \<Rightarrow> int" where
  \<comment> \<open>the value of \<^verbatim>\<open>end\<close> after the sentence boundary detection: the window
      \<^verbatim>\<open>text[start:end]\<close> is cut after the last \<^verbatim>\<open>'. '\<close> inside it or, when there is
      none, after the last full stop that a newline follows\<close>
  "window_end text chunk_size start =
     (let end0 = start + chunk_size
      in if end0 < int (length text) then
           (let period_pos0 = str_rfind text ''. '' start end0;
                period_pos =
                  (if period_pos0 = - 1 then str_rfind text ''.\<newline>'' start end0
                   else period_pos0)
            in if period_pos \<noteq> - 1 then period_pos + 2 else end0)
         else end0)"

definition chunk_step :: "string \<Rightarrow> int \<Rightarrow> int \<Rightarrow> int \<Rightarrow> string list \<Rightarrow> int \<times> string list" where
  \<comment> \<open>one pass through the body of the \<^verbatim>\<open>while\<close> loop: the next \<open>start\<close> and
      \<open>chunks\<close>\<close>
  "chunk_step text chunk_size overlap start chunks =
     (let end1 = window_end text chunk_size start;
          chunk = str_strip (str_slice text start end1);
          chunks' = (if chunk \<noteq> [] then chunks @ [chunk] else chunks)
      in (if end1 < int (length text) then end1 - overlap else end1, chunks'))"

partial_function (option)
  chunk_loop :: "string \<Rightarrow> int \<Rightarrow> int \<Rightarrow> int \<Rightarrow> string list \<Rightarrow> string list option" where
  "chunk_loop text chunk_size overlap start chunks =
     (if start < int (length text) then
        chunk_loop text chunk_size overlap
          (fst (chunk_step text chunk_size overlap start chunks))
          (snd (chunk_step text chunk_size overlap start chunks))
      else Some chunks)"

declare chunk_loop.simps [code]

definition chunk_text :: "string \<Rightarrow> int \<Rightarrow> int \<Rightarrow> string list option" where
  \<comment> \<open>\<^verbatim>\<open>_chunk_text(text, chunk_size, overlap)\<close>; \<open>None\<close> is a loop that never
      returns\<close>
  "chunk_text text chunk_size overlap =
     (if int (length text) \<le> chunk_size then Some [text]
      else chunk_loop text chunk_size overlap 0 [])"

definition chunk_text_default :: "string \<Rightarrow> string list option" where
  \<comment> \<open>the call \<^verbatim>\<open>self._chunk_text(content)\<close>, with the defaults of the signature\<close>
  "chunk_text_default text = chunk_text text 2000 200"

section \<open>The pipeline and its collaborators\<close>

text \<open>
  An exception is a value; \<open>Inl\<close> of a sum is a raise.  The collaborators that the code
  reaches over the network or in a library (the embedding model, the OpenAI client, the
  Chroma collection) are fields of the pipeline: their results are whatever the functions
  in these fields return, and every call to one of them is written to \<open>calls\<close>.
\<close>

datatype exn = Exception string

fun str_exn :: "exn \<Rightarrow> string" where
  \<comment> \<open>\<^verbatim>\<open>str(e)\<close>\<close>
  "str_exn (Exception msg) = msg"

record chunk_metadata =
  \<comment> \<open>the metadata dictionary of a chunk; \<open>None\<close> is a key that is absent\<close>
  document_id :: "string option"
  document_name :: "string option"
  chunk_index :: "nat option"

record 'e entry =
  \<comment> \<open>one record of the Chroma collection\<close>
  entry_id :: string
  entry_embedding :: 'e
  entry_document :: string
  entry_metadata :: chunk_metadata

record 'e sentence_transformer =
  \<comment> \<open>\<^verbatim>\<open>SentenceTransformer.encode\<close> on one text and on a list of texts\<close>
  encode :: "string \<Rightarrow> exn + 'e"
  encode_batch :: "string list \<Rightarrow> exn + 'e list"

record 'e openai =
  \<comment> \<open>\<^verbatim>\<open>embeddings.create\<close> gives \<^verbatim>\<open>response.data[0].embedding\<close> and
      \<^verbatim>\<open>chat.completions.create\<close> gives \<^verbatim>\<open>response.choices[0].message.content\<close>
      for a prompt, when nothing is raised on the way\<close>
  embeddings_create :: "string \<Rightarrow> exn + 'e"
  chat_completions_create :: "string \<Rightarrow> exn + string"

datatype call =
  Encode string | Encode_Batch "string list" | Embeddings_Create string
  | Chat_Completions_Create string

record 'e rag_pipeline =
  use_local_embeddings :: bool
  embedding_model :: "'e sentence_transformer option"
  openai_client :: "'e openai option"
  collection :: "'e entry list"
  collection_query :: "'e entry list \<Rightarrow> 'e \<Rightarrow> nat \<Rightarrow> ('e entry \<times> real) list"
  calls :: "call list"

subsection \<open>The Chroma collection\<close>

text \<open>
  The collection is the list of its records, in the order they were added.
  \<^verbatim>\<open>collection.add\<close> is the one of \<^verbatim>\<open>chromadb.PersistentClient\<close>: the four lists
  must have one length and the ids must differ from each other, and a record whose id is
  in the collection already is left out.  \<^verbatim>\<open>collection.query\<close> is the field
  \<^const>\<open>collection_query\<close>: the records it finds with their distances.
\<close>

definition collection_count :: "'e entry list \<Rightarrow> nat" where
  "collection_count c = length c"

definition collection_get_where :: "'e entry list \<Rightarrow> string \<Rightarrow> string list" where
  \<comment> \<open>\<^verbatim>\<open>collection.get(where={"document_id": d})['ids']\<close>\<close>
  "collection_get_where c d =
     map entry_id (filter (\<lambda>e. document_id (entry_metadata e) = Some d) c)"

definition collection_get_all :: "'e entry list \<Rightarrow> string list" where
  \<comment> \<open>\<^verbatim>\<open>collection.get()['ids']\<close>\<close>
  "collection_get_all c = map entry_id c"

definition collection_delete :: "'e entry list \<Rightarrow> string list \<Rightarrow> 'e entry list" where
  "collection_delete c ids = filter (\<lambda>e. entry_id e \<notin> set ids) c"

definition collection_add ::
  "'e entry list \<Rightarrow> 'e list \<Rightarrow> string list \<Rightarrow> chunk_metadata list \<Rightarrow> string list
    \<Rightarrow> exn + 'e entry list" where
  "collection_add c embeddings documents metadatas ids =
     (if length embeddings \<noteq> length ids \<or> length documents \<noteq> length ids
         \<or> length metadatas \<noteq> length ids
      then Inl (Exception ''ValueError'')
      else if \<not> distinct ids then Inl (Exception ''DuplicateIDError'')
      else Inr (c @ filter (\<lambda>e. entry_id e \<notin> set (map entry_id c))
             (map (\<lambda>i. \<lparr>entry_id = ids ! i, entry_embedding = embeddings ! i,
                          entry_document = documents ! i, entry_metadata = metadatas ! i\<rparr>)
                [0 ..< length ids])))"

subsection \<open>\<^verbatim>\<open>RAGPipeline\<close>: embeddings, ingestion, removal, search\<close>

definition get_embeddings :: "'e rag_pipeline \<Rightarrow> string \<Rightarrow> (exn + 'e) \<times> 'e rag_pipeline" where
  \<comment> \<open>\<^verbatim>\<open>_get_embeddings(text)\<close>\<close>
  "get_embeddings p text =
     (case (if use_local_embeddings p then embedding_model p else None) of
        Some m \<Rightarrow> (encode m text, p\<lparr>calls := calls p @ [Encode text]\<rparr>)
      | None \<Rightarrow>
          (case openai_client p of
             Some client \<Rightarrow>
               (embeddings_create client text, p\<lparr>calls := calls p @ [Embeddings_Create text]\<rparr>)
           | None \<Rightarrow> (Inl (Exception ''No embedding model available''), p)))"

fun get_embeddings_list ::
  "'e rag_pipeline \<Rightarrow> string list \<Rightarrow> (exn + 'e list) \<times> 'e rag_pipeline" where
  \<comment> \<open>\<^verbatim>\<open>[self._get_embeddings(chunk) for chunk in valid_chunks]\<close>: the first raise ends
      the comprehension\<close>
  "get_embeddings_list p [] = (Inr [], p)"
| "get_embeddings_list p (chunk # chunks) =
     (case get_embeddings p chunk of
        (Inl e, p') \<Rightarrow> (Inl e, p')
      | (Inr v, p') \<Rightarrow>
          (case get_embeddings_list p' chunks of
             (Inl e, p'') \<Rightarrow> (Inl e, p'')
           | (Inr vs, p'') \<Rightarrow> (Inr (v # vs), p'')))"

definition embed_chunks ::
  "'e rag_pipeline \<Rightarrow> string list \<Rightarrow> (exn + 'e list) \<times> 'e rag_pipeline" where
  \<comment> \<open>the embeddings of \<^verbatim>\<open>add_document\<close>: one batch call of the local model, or one
      call of \<^verbatim>\<open>_get_embeddings\<close> for each chunk\<close>
  "embed_chunks p valid_chunks =
     (case (if use_local_embeddings p then embedding_model p else None) of
        Some m \<Rightarrow> (encode_batch m valid_chunks, p\<lparr>calls := calls p @ [Encode_Batch valid_chunks]\<rparr>)
      | None \<Rightarrow> get_embeddings_list p valid_chunks)"

definition chunk_id :: "string \<Rightarrow> nat \<Rightarrow> string" where
  \<comment> \<open>\<^verbatim>\<open>f"{document_id}_{i}"\<close>\<close>
  "chunk_id d i = d @ ''_'' @ str_nat i"

definition document_chunks :: "string \<Rightarrow> string list option" where
  \<comment> \<open>the \<^verbatim>\<open>chunks\<close> of \<^verbatim>\<open>add_document\<close>; \<open>None\<close> when \<^verbatim>\<open>_chunk_text\<close> never
      returns\<close>
  "document_chunks content =
     (if length content < 3000
      then Some (if str_strip content \<noteq> [] then [content] else [])
      else chunk_text_default content)"

definition store_chunks ::
  "'e rag_pipeline \<Rightarrow> string \<Rightarrow> string \<Rightarrow> string list \<Rightarrow> (exn + unit) \<times> 'e rag_pipeline" where
  \<comment> \<open>\<^verbatim>\<open>add_document\<close> from the chunks on: filter, embed, add to the collection\<close>
  "store_chunks p d name chunks =
     (if chunks = [] then (Inr (), p)
      else
        let valid_chunks = filter (\<lambda>chunk. str_strip chunk \<noteq> []) chunks
        in if valid_chunks = [] then (Inr (), p)
           else
             (case embed_chunks p valid_chunks of
                (Inl e, p') \<Rightarrow> (Inl e, p')
              | (Inr embeddings_list, p') \<Rightarrow>
                  let ids_to_add = map (chunk_id d) [0 ..< length valid_chunks];
                      metadatas_to_add =
                        map (\<lambda>i. \<lparr>document_id = Some d, document_name = Some name,
                                    chunk_index = Some i\<rparr>) [0 ..< length valid_chunks]
                  in (case collection_add (collection p') embeddings_list valid_chunks
                             metadatas_to_add ids_to_add of
                        Inl e \<Rightarrow> (Inl e, p')
                      | Inr c \<Rightarrow> (Inr (), p'\<lparr>collection := c\<rparr>))))"

definition add_document ::
  "'e rag_pipeline \<Rightarrow> string \<Rightarrow> string \<Rightarrow> string \<Rightarrow> ((exn + unit) \<times> 'e rag_pipeline) option" where
  \<comment> \<open>\<^verbatim>\<open>add_document(document_id, document_name, content)\<close>; \<open>None\<close> when it never
      returns\<close>
  "add_document p d name content =
     (case document_chunks content of
        None \<Rightarrow> None
      | Some chunks \<Rightarrow> Some (store_chunks p d name chunks))"

definition remove_document :: "'e rag_pipeline \<Rightarrow> string \<Rightarrow> 'e rag_pipeline" where
  "remove_document p d =
     (let ids = collection_get_where (collection p) d
      in if ids \<noteq> [] then p\<lparr>collection := collection_delete (collection p) ids\<rparr> else p)"

definition clear_all_documents :: "'e rag_pipeline \<Rightarrow> 'e rag_pipeline" where
  "clear_all_documents p =
     (if collection_count (collection p) > 0
      then (let ids = collection_get_all (collection p)
            in if ids \<noteq> [] then p\<lparr>collection := collection_delete (collection p) ids\<rparr> else p)
      else p)"

record retrieved_doc =
  \<comment> \<open>one retrieved document of \<^verbatim>\<open>search\<close>\<close>
  content :: string
  metadata :: chunk_metadata
  distance :: real

definition search ::
  "'e rag_pipeline \<Rightarrow> string \<Rightarrow> nat \<Rightarrow> (exn + retrieved_doc list \<times> real list) \<times> 'e rag_pipeline" where
  "search p query top_k =
     (if collection_count (collection p) = 0 then (Inr ([], []), p)
      else
        (case get_embeddings p query of
           (Inl e, p') \<Rightarrow> (Inl e, p')
         | (Inr query_embedding, p') \<Rightarrow>
             let results = collection_query p' (collection p') query_embedding
                             (min top_k (collection_count (collection p')))
             in (Inr (map (\<lambda>(e, dist). \<lparr>content = entry_document e,
                                          metadata = entry_metadata e, distance = dist\<rparr>) results,
                      map snd results), p')))"

section \<open>Response generation\<close>

subsection \<open>\<^verbatim>\<open>_create_natural_response\<close>\<close>

definition key_sentence_step ::
  "string set \<Rightarrow> string list \<times> string set set \<Rightarrow> string \<Rightarrow> string list \<times> string set set" where
  \<comment> \<open>the body of the loop over the sentences, on \<^verbatim>\<open>key_sentences\<close> and
      \<^verbatim>\<open>seen_words\<close>; the tuple \<^verbatim>\<open>tuple(sorted(sentence_words))\<close> is the set itself\<close>
  "key_sentence_step query_words st sentence =
     (let key_sentences = fst st; seen_words = snd st;
          sentence_lower = str_lower sentence;
          sentence_words = set (str_split sentence_lower);
          relevance = card (query_words \<inter> sentence_words)
      in if relevance > 0 \<or> length key_sentences < 5 then
           (let words_in_sentence = sentence_words
            in if words_in_sentence \<notin> seen_words \<or> length key_sentences < 3
               then (key_sentences @ [str_strip sentence], insert words_in_sentence seen_words)
               else (key_sentences, seen_words))
         else (key_sentences, seen_words))"

definition limit_natural_response :: "string \<Rightarrow> string" where
  \<comment> \<open>the last part of \<^verbatim>\<open>_create_natural_response\<close>: the final punctuation and the
      limit of 800 characters\<close>
  "limit_natural_response response0 =
     (let response =
            (if \<not> (str_endswith response0 ''.'' \<or> str_endswith response0 ''!''
                    \<or> str_endswith response0 ''?'')
             then response0 @ ''.'' else response0)
      in if length response > 800 then
           (let cutoff = str_rfind_all (take 800 response) ''.''
            in if cutoff > 500 then take (nat (cutoff + 1)) response
               else take 750 response @ ''...'')
         else response)"

definition create_natural_response :: "string \<Rightarrow> string \<Rightarrow> string" where
  "create_natural_response query text =
     (let sentences = str_split_on text ''. '';
          query_words = set (str_split (str_lower query));
          key_sentences0 = fst (foldl (key_sentence_step query_words) ([], {}) (take 15 sentences));
          key_sentences =
            (if key_sentences0 = []
             then filter (\<lambda>s. s \<noteq> []) (map str_strip (take 5 sentences))
             else key_sentences0);
          response =
            (if length key_sentences = 1 then hd key_sentences
             else if length key_sentences \<le> 3 then str_join ''. '' key_sentences
             else str_join ''. '' (take 3 key_sentences) @ ''. '' @ last key_sentences)
      in limit_natural_response response)"

subsection \<open>\<^verbatim>\<open>_generate_simple_response\<close>\<close>

definition clean_content :: "string \<Rightarrow> string" where
  \<comment> \<open>white space normalised, and at most 500 characters of it, cut after a full stop
      when there is one beyond position 300\<close>
  "clean_content content0 =
     (let content = str_join '' '' (str_split content0)
      in if length content > 500 then
           (let last_period = str_rfind_all (take 500 content) ''.''
            in if last_period > 300 then take (nat (last_period + 1)) content @ ''...''
               else take 500 content @ ''...'')
         else content)"

fun map_append :: "(string \<times> string list) list \<Rightarrow> string \<Rightarrow> string \<Rightarrow> (string \<times> string list) list" where
  \<comment> \<open>\<^verbatim>\<open>doc_content_map[doc_name].append(content)\<close>, a new key going to the end of the
      dictionary\<close>
  "map_append [] doc_name c = [(doc_name, [c])]"
| "map_append ((k, cs) # m) doc_name c =
     (if k = doc_name then (k, cs @ [c]) # m else (k, cs) # map_append m doc_name c)"

definition group_step :: "(string \<times> string list) list \<Rightarrow> retrieved_doc \<Rightarrow> (string \<times> string list) list" where
  \<comment> \<open>the body of the loop that groups the contents by document\<close>
  "group_step doc_content_map ctx =
     (let content0 = str_strip (content ctx);
          doc_name = (case document_name (metadata ctx) of None \<Rightarrow> ''Document'' | Some n \<Rightarrow> n)
      in if content0 \<noteq> [] then map_append doc_content_map doc_name (clean_content content0)
         else doc_content_map)"

definition is_explain_query :: "string \<Rightarrow> bool" where
  \<comment> \<open>\<^verbatim>\<open>query.lower().startswith(("what", "tell me", "explain", "describe"))\<close>\<close>
  "is_explain_query query =
     (let q = str_lower query
      in str_startswith q ''what'' \<or> str_startswith q ''tell me''
         \<or> str_startswith q ''explain'' \<or> str_startswith q ''describe'')"

definition limit_combined_text :: "string \<Rightarrow> string" where
  "limit_combined_text combined_text =
     (if length combined_text > 1000 then
        (let cutoff = str_rfind_all (take 1000 combined_text) ''.''
         in if cutoff > 700
            then take (nat (cutoff + 1)) combined_text
                 @ '' For more details, please refer to the full documents.''
            else take 900 combined_text
                 @ ''... For more details, please refer to the full documents.'')
      else combined_text)"

definition found_response :: "string \<Rightarrow> retrieved_doc list \<Rightarrow> string" where
  \<comment> \<open>the branch \<^verbatim>\<open>if found_in_documents and retrieved_contexts\<close>\<close>
  "found_response query retrieved_contexts =
     (let doc_content_map = foldl group_step [] (take 5 retrieved_contexts);
          all_content = map (\<lambda>(doc_name, contents). str_join '' '' (take 3 contents)) doc_content_map;
          combined_text = str_join '' '' all_content;
          num_docs = length doc_content_map;
          doc_names = map fst doc_content_map
      in if is_explain_query query then
           (if num_docs = 1 then ''Based on '' @ hd doc_names @ '', ''
            else ''Based on your documents ('' @ str_join '', '' doc_names @ ''), '')
           @ create_natural_response query combined_text
         else
           (if num_docs = 1 then ''Based on '' @ hd doc_names @ '', here's what I found:\<newline>\<newline>''
            else ''Based on your documents, here's what I found:\<newline>\<newline>'')
           @ limit_combined_text combined_text)"

definition generate_simple_response :: "string \<Rightarrow> retrieved_doc list \<Rightarrow> bool \<Rightarrow> string" where
  "generate_simple_response query retrieved_contexts found_in_documents =
     (if found_in_documents \<and> retrieved_contexts \<noteq> [] then found_response query retrieved_contexts
      else if retrieved_contexts \<noteq> [] then
        (let best_context = content (hd retrieved_contexts)
         in if best_context \<noteq> [] then
              ''I found some information in your documents, though it may not directly answer ''
              @ [CHR 0x27] @ query @ [CHR 0x27] @ '':\<newline>\<newline>''
              @ take 600 best_context
              @ (if length best_context > 600 then ''...'' else [])
            else ''I couldn't find specific information about '' @ [CHR 0x27] @ query @ [CHR 0x27]
                 @ '' in your selected documents.'')
      else ''I couldn't find specific information about '' @ [CHR 0x27] @ query @ [CHR 0x27]
           @ '' in your selected documents. ''
           @ ''Please make sure you've added documents to the knowledge base first.'')"

subsection \<open>\<^verbatim>\<open>_generate_with_openai\<close> and \<^verbatim>\<open>generate_response\<close>\<close>

definition build_prompt :: "string \<Rightarrow> retrieved_doc list \<Rightarrow> bool \<Rightarrow> string" where
  "build_prompt query retrieved_contexts found_in_documents =
     (let context_parts = map content retrieved_contexts;
          context_text = str_join ''\<newline>\<newline>'' context_parts
      in if found_in_documents \<and> context_text \<noteq> [] then
           ''You are a helpful assistant that answers questions based on the provided documents.''
           @ ''\<newline>\<newline>Context from user's documents:\<newline>'' @ context_text
           @ ''\<newline>\<newline>Question: '' @ query
           @ ''\<newline>\<newline>Answer the question based on the context provided. If the context doesn't fully answer the question, say so but provide the best answer you can from the context.''
         else
           ''The user asked: '' @ query
           @ ''\<newline>\<newline>Note: The answer was not found in the user's documents. Please provide a helpful answer from your general knowledge.'')"

definition generate_with_openai ::
  "'e rag_pipeline \<Rightarrow> 'e openai \<Rightarrow> string \<Rightarrow> retrieved_doc list \<Rightarrow> bool \<Rightarrow> string \<times> 'e rag_pipeline" where
  \<comment> \<open>the \<^verbatim>\<open>try\<close> block holds the call of the provider and the reading of its
      response; \<^verbatim>\<open>except Exception\<close> answers with the simple response\<close>
  "generate_with_openai p client query retrieved_contexts found_in_documents =
     (let prompt = build_prompt query retrieved_contexts found_in_documents;
          p' = p\<lparr>calls := calls p @ [Chat_Completions_Create prompt]\<rparr>
      in case chat_completions_create client prompt of
           Inr text \<Rightarrow> (str_strip text, p')
         | Inl e \<Rightarrow> (generate_simple_response query retrieved_contexts found_in_documents, p'))"

definition generate_response ::
  "'e rag_pipeline \<Rightarrow> string \<Rightarrow> retrieved_doc list \<Rightarrow> bool \<Rightarrow> string \<times> 'e rag_pipeline" where
  "generate_response p query retrieved_contexts found_in_documents =
     (case openai_client p of
        Some client \<Rightarrow> generate_with_openai p client query retrieved_contexts found_in_documents
      | None \<Rightarrow> (generate_simple_response query retrieved_contexts found_in_documents, p))"

section \<open>The endpoints of \<^verbatim>\<open>backend/main.py\<close>\<close>

datatype http_exception = HTTPException nat string

subsection \<open>\<^verbatim>\<open>chat\<close>\<close>

definition select_contexts :: "retrieved_doc list \<Rightarrow> real list \<Rightarrow> bool \<times> retrieved_doc list" where
  \<comment> \<open>\<^verbatim>\<open>found_in_documents\<close> and \<^verbatim>\<open>relevant_contexts\<close> of \<^verbatim>\<open>chat\<close>: the results
      with a score below 1.0 or, when there are results and none is below 1.0, the first
      three results\<close>
  "select_contexts retrieved_docs scores =
     (let relevant_contexts0 =
            (if retrieved_docs \<noteq> []
             then map fst (filter (\<lambda>(doc, score). score < 1.0) (zip retrieved_docs scores))
             else []);
          found_in_documents0 = (relevant_contexts0 \<noteq> [])
      in if retrieved_docs \<noteq> [] \<and> \<not> found_in_documents0 then (True, take 3 retrieved_docs)
         else (found_in_documents0, relevant_contexts0))"

record source =
  source_document_name :: string
  source_document_id :: string
  relevance_score :: real

definition source_step :: "source list \<Rightarrow> retrieved_doc \<Rightarrow> source list" where
  \<comment> \<open>the body of the loop that fills \<^verbatim>\<open>sources_dict\<close>, a dictionary keyed by the
      document name\<close>
  "source_step sources_dict ctx =
     (let doc_name = (case document_name (metadata ctx) of None \<Rightarrow> ''Unknown'' | Some n \<Rightarrow> n);
          doc_id = (case document_id (metadata ctx) of None \<Rightarrow> [] | Some d \<Rightarrow> d);
          new_score = 1 - distance ctx
      in if doc_name \<notin> set (map source_document_name sources_dict)
         then sources_dict @ [\<lparr>source_document_name = doc_name, source_document_id = doc_id,
                                relevance_score = new_score\<rparr>]
         else map (\<lambda>s. if source_document_name s = doc_name \<and> new_score > relevance_score s
                        then s\<lparr>relevance_score := new_score\<rparr> else s) sources_dict)"

record chat_response =
  response :: string
  sources :: "source list"
  found_in_documents :: bool
  conversation_id :: string

definition chat ::
  "'e rag_pipeline \<Rightarrow> string \<Rightarrow> string option \<Rightarrow> string
    \<Rightarrow> (http_exception + chat_response) \<times> 'e rag_pipeline" where
  \<comment> \<open>\<^verbatim>\<open>chat(request, session_id)\<close> on the query and the conversation id of the request;
      \<open>uuid4\<close> is the value that \<^verbatim>\<open>uuid.uuid4()\<close> would give\<close>
  "chat p query request_conversation_id uuid4 =
     (case search p query 5 of
        (Inl e, p') \<Rightarrow>
          (Inl (HTTPException 500 (''Error processing chat request: '' @ str_exn e)), p')
      | (Inr (retrieved_docs, scores), p') \<Rightarrow>
          (case select_contexts retrieved_docs scores of
             (found, relevant_contexts) \<Rightarrow>
               (case generate_response p' query relevant_contexts found of
                  (response_text, p'') \<Rightarrow>
                    (Inr \<lparr>response = response_text,
                          sources = foldl source_step [] relevant_contexts,
                          found_in_documents = found,
                          conversation_id =
                            (case request_conversation_id of
                               None \<Rightarrow> uuid4
                             | Some c \<Rightarrow> if c \<noteq> [] then c else uuid4)\<rparr>, p''))))"

subsection \<open>\<^verbatim>\<open>add_documents\<close>\<close>

record 'c docs_service =
  \<comment> \<open>\<^verbatim>\<open>GoogleDocsService\<close>: the text of a document, and the \<^verbatim>\<open>name\<close> of its
      metadata when the key is there\<close>
  get_document_content :: "string \<Rightarrow> 'c \<Rightarrow> exn + string"
  get_document_metadata :: "string \<Rightarrow> 'c \<Rightarrow> exn + string option"

definition processing_error :: "string \<Rightarrow> exn \<Rightarrow> string" where
  "processing_error doc_id e = ''Error processing document '' @ doc_id @ '': '' @ str_exn e"

definition process_document ::
  "'c docs_service \<Rightarrow> 'c \<Rightarrow> 'e rag_pipeline \<Rightarrow> string
    \<Rightarrow> ((string + unit) \<times> 'e rag_pipeline) option" where
  \<comment> \<open>the body of the loop over \<^verbatim>\<open>request.document_ids\<close>: \<open>Inl\<close> is the message that
      goes to \<^verbatim>\<open>errors\<close>, \<open>Inr\<close> is a document that was added, \<open>None\<close> is a body that
      never returns\<close>
  "process_document docs credentials p doc_id =
     (case get_document_content docs doc_id credentials of
        Inl e \<Rightarrow> Some (Inl (processing_error doc_id e), p)
      | Inr doc_content \<Rightarrow>
          if doc_content = [] \<or> length (str_strip doc_content) = 0
          then Some (Inl (''Document '' @ doc_id @ '' is empty''), p)
          else
            (case get_document_metadata docs doc_id credentials of
               Inl e \<Rightarrow> Some (Inl (processing_error doc_id e), p)
             | Inr name \<Rightarrow>
                 let doc_name = (case name of None \<Rightarrow> ''Document '' @ doc_id | Some n \<Rightarrow> n)
                 in (case add_document (remove_document p doc_id) doc_id doc_name doc_content of
                       None \<Rightarrow> None
                     | Some (Inl e, p') \<Rightarrow> Some (Inl (processing_error doc_id e), p')
                     | Some (Inr u, p') \<Rightarrow> Some (Inr (), p'))))"

fun add_documents_loop ::
  "'c docs_service \<Rightarrow> 'c \<Rightarrow> 'e rag_pipeline \<Rightarrow> nat \<Rightarrow> string list \<Rightarrow> string list
    \<Rightarrow> (nat \<times> string list \<times> 'e rag_pipeline) option" where
  \<comment> \<open>the loop, on \<^verbatim>\<open>added_count\<close> and \<^verbatim>\<open>errors\<close>\<close>
  "add_documents_loop docs credentials p added_count errors [] = Some (added_count, errors, p)"
| "add_documents_loop docs credentials p added_count errors (doc_id # document_ids) =
     (case process_document docs credentials p doc_id of
        None \<Rightarrow> None
      | Some (Inl error_msg, p') \<Rightarrow>
          add_documents_loop docs credentials p' added_count (errors @ [error_msg]) document_ids
      | Some (Inr u, p') \<Rightarrow>
          add_documents_loop docs credentials p' (added_count + 1) errors document_ids)"

record add_documents_response =
  success :: bool
  message :: string
  added_count :: nat

definition add_documents_result :: "nat \<Rightarrow> string list \<Rightarrow> add_documents_response" where
  \<comment> \<open>the response after the loop\<close>
  "add_documents_result n errors =
     (if n > 0 then
        \<lparr>success = True,
         message = ''Successfully added '' @ str_nat n @ '' document(s) to knowledge base''
                   @ (if errors \<noteq> [] then ''. Errors: '' @ str_nat (length errors) else []),
         added_count = n\<rparr>
      else
        \<lparr>success = False,
         message = ''Failed to add documents. Errors: '' @ str_join ''; '' errors,
         added_count = 0\<rparr>)"

definition add_documents ::
  "'c docs_service \<Rightarrow> (string \<rightharpoonup> 'c) \<Rightarrow> 'e rag_pipeline \<Rightarrow> string list \<Rightarrow> string \<Rightarrow> bool
    \<Rightarrow> ((http_exception + add_documents_response) \<times> 'e rag_pipeline) option" where
  \<comment> \<open>\<^verbatim>\<open>add_documents(request, session_id, clear_first)\<close>; a session that is not in
      \<^verbatim>\<open>user_sessions\<close> is the \<^verbatim>\<open>HTTPException\<close> that the handler raises again\<close>
  "add_documents docs user_sessions p document_ids session_id clear_first =
     (let p1 = (if clear_first then clear_all_documents p else p)
      in case user_sessions session_id of
           None \<Rightarrow> Some (Inl (HTTPException 401 ''Not authenticated''), p1)
         | Some credentials \<Rightarrow>
             (case add_documents_loop docs credentials p1 0 [] document_ids of
                None \<Rightarrow> None
              | Some (n, errors, p2) \<Rightarrow> Some (Inr (add_documents_result n errors), p2)))"

section \<open>The windows of the chunker\<close>

text \<open>
  The loop of \<^verbatim>\<open>_chunk_text\<close> visits windows \<^verbatim>\<open>text[start:end]\<close>.
  \<open>chunk_windows text chunk_size overlap start ws\<close> holds when the loop, entered with
  \<open>start\<close>, visits the windows \<open>ws\<close> and then leaves; it follows \<^const>\<open>chunk_loop\<close>
  pass by pass.
\<close>

inductive chunk_windows :: "string \<Rightarrow> int \<Rightarrow> int \<Rightarrow> int \<Rightarrow> (int \<times> int) list \<Rightarrow> bool"
  for body :: string and chunk_size :: int and overlap :: int where
  finished: "\<not> start < int (length body) \<Longrightarrow> chunk_windows body chunk_size overlap start []"
| window:
    "start < int (length body) \<Longrightarrow> end1 = window_end body chunk_size start \<Longrightarrow>
     chunk_windows body chunk_size overlap
       (if end1 < int (length body) then end1 - overlap else end1) ws \<Longrightarrow>
     chunk_windows body chunk_size overlap start ((start, end1) # ws)"

definition window_texts :: "string \<Rightarrow> (int \<times> int) list \<Rightarrow> string list" where
  "window_texts text ws = map (\<lambda>(s, e). str_slice text s e) ws"

definition window_chunks :: "string \<Rightarrow> (int \<times> int) list \<Rightarrow> string list" where
  \<comment> \<open>the chunks of the windows: trimmed, and left out when empty\<close>
  "window_chunks text ws =
     filter (\<lambda>chunk. chunk \<noteq> []) (map (\<lambda>(s, e). str_strip (str_slice text s e)) ws)"

fun join_windows :: "nat \<Rightarrow> string list \<Rightarrow> string" where
  \<comment> \<open>the first text, then every later text without its first \<open>overlap\<close> characters\<close>
  "join_windows overlap [] = []"
| "join_windows overlap (w # ws) = w @ concat (map (drop overlap) ws)"

text \<open>
  The reconstruction that the specification describes for the chunk texts: each chunk
  after the first loses the overlapping prefix it shares with its predecessor, which is
  the longest prefix of the chunk that is a suffix of the predecessor.
\<close>

definition shared_prefix_length :: "string \<Rightarrow> string \<Rightarrow> nat" where
  "shared_prefix_length prev chunk =
     (case List.find (\<lambda>k. take k chunk = drop (length prev - k) prev)
             (rev [0 ..< Suc (min (length prev) (length chunk))]) of
        None \<Rightarrow> 0
      | Some k \<Rightarrow> k)"

fun strip_overlaps :: "string \<Rightarrow> string list \<Rightarrow> string" where
  "strip_overlaps prev [] = []"
| "strip_overlaps prev (chunk # chunks) =
     drop (shared_prefix_length prev chunk) chunk @ strip_overlaps chunk chunks"

definition reconstruct :: "string list \<Rightarrow> string" where
  "reconstruct chunks = (case chunks of [] \<Rightarrow> [] | chunk # rest \<Rightarrow> chunk @ strip_overlaps chunk rest)"

section \<open>What the collection holds for a document\<close>

definition document_entries :: "'e entry list \<Rightarrow> string \<Rightarrow> 'e entry list" where
  \<comment> \<open>the records whose metadata names the document \<open>d\<close>\<close>
  "document_entries c d = filter (\<lambda>e. document_id (entry_metadata e) = Some d) c"

definition wf_entry :: "'e entry \<Rightarrow> bool" where
  \<comment> \<open>the id of the record is the one \<^verbatim>\<open>add_document\<close> gives to its document and
      chunk index\<close>
  "wf_entry e =
     (case (document_id (entry_metadata e), chunk_index (entry_metadata e)) of
        (Some d, Some i) \<Rightarrow> entry_id e = chunk_id d i
      | _ \<Rightarrow> False)"

definition wf_collection :: "'e entry list \<Rightarrow> bool" where
  "wf_collection c = list_all wf_entry c"

definition long_sentence :: string where
  \<comment> \<open>a sentence end at position 300, followed by 2700 characters with no other one\<close>
  "long_sentence = replicate 300 (CHR ''a'') @ ''. '' @ replicate 2700 (CHR ''a'')"

definition spaced_text :: string where
  \<comment> \<open>3000 characters: a run of 400 spaces after 1700 letters, then 900 letters\<close>
  "spaced_text = replicate 1700 (CHR ''a'') @ replicate 400 (CHR '' '') @ replicate 900 (CHR ''a'')"

definition letters :: string where
  \<comment> \<open>3000 characters with no white space and no sentence end\<close>
  "letters = replicate 3000 (CHR ''a'')"

section \<open>Pipelines and inputs of the examples\<close>

text \<open>
  The embedding of a text is a natural number here, its length: the model that works,
  \<open>length_model\<close>, returns it, and \<open>failing_model\<close> raises on every call.
\<close>

definition length_model :: "nat sentence_transformer" where
  "length_model = \<lparr>encode = (\<lambda>t. Inr (length t)), encode_batch = (\<lambda>ts. Inr (map length ts))\<rparr>"

definition failing_model :: "nat sentence_transformer" where
  "failing_model = \<lparr>encode = (\<lambda>t. Inl (Exception ''model unavailable'')),
                     encode_batch = (\<lambda>ts. Inl (Exception ''model unavailable''))\<rparr>"

definition empty_pipeline :: "nat rag_pipeline" where
  \<comment> \<open>nothing is indexed\<close>
  "empty_pipeline =
     \<lparr>use_local_embeddings = True, embedding_model = Some failing_model, openai_client = None,
      collection = [], collection_query = (\<lambda>c q n. []), calls = []\<rparr>"

definition blank_pipeline :: "nat rag_pipeline" where
  \<comment> \<open>nothing is indexed, and the embedding model works\<close>
  "blank_pipeline = empty_pipeline\<lparr>embedding_model := Some length_model\<rparr>"

definition doc_a_entry :: "nat \<Rightarrow> string \<Rightarrow> nat entry" where
  \<comment> \<open>chunk \<open>i\<close> of the document with id \<open>a\<close> and name \<open>Doc A\<close>\<close>
  "doc_a_entry i text =
     \<lparr>entry_id = chunk_id ''a'' i, entry_embedding = length text, entry_document = text,
      entry_metadata = \<lparr>document_id = Some ''a'', document_name = Some ''Doc A'',
                         chunk_index = Some i\<rparr>\<rparr>"

definition doc_a_collection :: "nat entry list" where
  "doc_a_collection =
     [doc_a_entry 0 ''The sky is blue.'', doc_a_entry 1 ''Grass is green.'',
      doc_a_entry 2 ''Snow is white.'', doc_a_entry 3 ''Coal is black.'']"

definition weak_pipeline :: "nat rag_pipeline" where
  \<comment> \<open>four chunks are indexed and every query finds them at the distances
      1.2, 1.3, 1.4 and 1.5; there is no OpenAI client\<close>
  "weak_pipeline =
     \<lparr>use_local_embeddings = True, embedding_model = Some length_model, openai_client = None,
      collection = doc_a_collection,
      collection_query = (\<lambda>c q n. take n (zip c [6/5, 13/10, 7/5, 3/2])), calls = []\<rparr>"

definition silent_pipeline :: "nat rag_pipeline" where
  \<comment> \<open>the same four chunks are indexed and no query finds any of them\<close>
  "silent_pipeline = weak_pipeline\<lparr>collection_query := (\<lambda>c q n. [])\<rparr>"

definition timeout_client :: "nat openai" where
  \<comment> \<open>a provider that raises on every call\<close>
  "timeout_client =
     \<lparr>embeddings_create = (\<lambda>t. Inl (Exception ''Request timed out.'')),
      chat_completions_create = (\<lambda>prompt. Inl (Exception ''Request timed out.''))\<rparr>"

definition timeout_pipeline :: "nat rag_pipeline" where
  "timeout_pipeline = weak_pipeline\<lparr>openai_client := Some timeout_client\<rparr>"

definition sky_context :: retrieved_doc where
  "sky_context =
     \<lparr>content = ''The sky is blue. Grass is green.'',
      metadata = \<lparr>document_id = Some ''a'', document_name = Some ''Doc A'', chunk_index = Some 0\<rparr>,
      distance = 3/2\<rparr>"

definition weak_results :: "retrieved_doc list" where
  \<comment> \<open>what \<^const>\<open>search\<close> returns on \<^const>\<open>weak_pipeline\<close>\<close>
  "weak_results =
     map (\<lambda>(e, dist). \<lparr>content = entry_document e, metadata = entry_metadata e, distance = dist\<rparr>)
       (zip doc_a_collection [6/5, 13/10, 7/5, 3/2])"

definition reingested_pipeline :: "nat rag_pipeline" where
  \<comment> \<open>\<^const>\<open>weak_pipeline\<close> after the document \<open>a\<close> was removed and added again with the
      text \<open>New text.\<close>\<close>
  "reingested_pipeline =
     weak_pipeline
       \<lparr>collection := [\<lparr>entry_id = chunk_id ''a'' 0, entry_embedding = 9,
                         entry_document = ''New text.'',
                         entry_metadata = \<lparr>document_id = Some ''a'', document_name = Some ''Doc A'',
                                            chunk_index = Some 0\<rparr>\<rparr>],
        calls := [Encode_Batch [''New text.'']]\<rparr>"

definition three_docs :: "unit docs_service" where
  \<comment> \<open>the documents \<open>a\<close>, \<open>b\<close> and \<open>c\<close>, of which \<open>b\<close> has no content\<close>
  "three_docs =
     \<lparr>get_document_content = (\<lambda>d c. if d = ''b'' then Inr [] else Inr (''Text of '' @ d)),
      get_document_metadata = (\<lambda>d c. Inr (Some (''Doc '' @ d)))\<rparr>"

definition long_docs :: "unit docs_service" where
  \<comment> \<open>the documents \<open>a\<close> and \<open>b\<close>, of which \<open>a\<close> has the text \<^const>\<open>long_sentence\<close>\<close>
  "long_docs =
     \<lparr>get_document_content =
        (\<lambda>d c. if d = ''a'' then Inr long_sentence else Inr (''Text of '' @ d)),
      get_document_metadata = (\<lambda>d c. Inr (Some (''Doc '' @ d)))\<rparr>"

section \<open>Facts about the string functions\<close>

lemma find_rev_upt_last:
  "a \<le> p \<Longrightarrow> p < c \<Longrightarrow> P p \<Longrightarrow> (\<And>q. p < q \<Longrightarrow> q < c \<Longrightarrow> \<not> P q) \<Longrightarrow>
   List.find P (rev [a ..< c]) = Some p"
proof (induction c)
  case 0
  then show ?case by simp
next
  case (Suc c)
  show ?case
  proof (cases "p = c")
    case True
    with Suc.prems show ?thesis by simp
  next
    case False
    with Suc.prems have "p < c" by simp
    moreover have "\<not> P c" using Suc.prems(4) [of c] \<open>p < c\<close> by simp
    moreover have "List.find P (rev [a ..< c]) = Some p"
      using Suc.IH [OF Suc.prems(1) \<open>p < c\<close> Suc.prems(3)] Suc.prems(4) by simp
    ultimately show ?thesis using Suc.prems(1) by simp
  qed
qed

lemma str_rfind_last:
  assumes "0 \<le> i" "0 \<le> j" "nat j \<le> length s"
    and "nat i \<le> p" "p + length sub \<le> nat j" "occurs_at s sub p"
    and "\<And>q. p < q \<Longrightarrow> q + length sub \<le> nat j \<Longrightarrow> \<not> occurs_at s sub q"
  shows "str_rfind s sub i j = int p"
proof -
  have a: "slice_index (length s) i = nat i" using assms(1-5) by (simp add: slice_index_def)
  have b: "slice_index (length s) j = nat j" using assms(2,3) by (simp add: slice_index_def)
  have "List.find (occurs_at s sub) (rev [nat i ..< Suc (nat j) - length sub]) = Some p"
    using assms(4-7) by (intro find_rev_upt_last) auto
  then show ?thesis by (simp add: str_rfind_def a b)
qed

lemma occurs_at_hd:
  assumes "occurs_at s (c # cs) q"
  shows "q < length s \<and> s ! q = c"
proof -
  from assms obtain l where l: "drop q s = c # l"
    by (cases "drop q s") (auto simp: occurs_at_def)
  then have "q < length s" by (cases "q < length s") auto
  moreover from this l have "s ! q = c" by (simp add: hd_drop_conv_nth [symmetric])
  ultimately show ?thesis by simp
qed

lemma chunk_loop_stuck:
  assumes "start < int (length text)"
    and "\<And>chunks. fst (chunk_step text chunk_size overlap start chunks) = start"
  shows "chunk_loop text chunk_size overlap start chunks = None"
proof (cases "chunk_loop text chunk_size overlap start chunks")
  case None
  then show ?thesis .
next
  case (Some y)
  have "text = text \<and> chunk_size = chunk_size \<and> overlap = overlap \<and> start = start \<longrightarrow> False"
  proof (rule chunk_loop.raw_induct
      [where P = "\<lambda>t c ov s cs z. t = text \<and> c = chunk_size \<and> ov = overlap \<and> s = start \<longrightarrow> False",
        OF _ Some])
    fix f t c ov s cs z
    assume IH: "\<And>t c ov s cs z. f t c ov s cs = Some z \<Longrightarrow>
        t = text \<and> c = chunk_size \<and> ov = overlap \<and> s = start \<longrightarrow> False"
      and body: "(if s < int (length t)
          then f t c ov (fst (chunk_step t c ov s cs)) (snd (chunk_step t c ov s cs))
          else Some cs) = Some z"
    show "t = text \<and> c = chunk_size \<and> ov = overlap \<and> s = start \<longrightarrow> False"
    proof
      assume eq: "t = text \<and> c = chunk_size \<and> ov = overlap \<and> s = start"
      with body assms
      have "f text chunk_size overlap start (snd (chunk_step text chunk_size overlap start cs)) = Some z"
        by simp
      from IH [OF this] show False by simp
    qed
  qed
  then show ?thesis by simp
qed


section \<open>The chunking loop on a long sentence\<close>

lemma length_long_sentence: "length long_sentence = 3002"
  by (simp add: long_sentence_def)

lemma long_sentence_nth:
  "q < 3002 \<Longrightarrow> long_sentence ! q = CHR ''.'' \<longleftrightarrow> q = 300"
  by (auto simp: long_sentence_def nth_append nth_Cons')

lemma occurs_at_long_sentence_300: "occurs_at long_sentence ''. '' 300"
  by (simp add: occurs_at_def long_sentence_def)

lemma occurs_at_long_sentence_only:
  "occurs_at long_sentence ''. '' q \<Longrightarrow> q = 300"
  using occurs_at_hd [of long_sentence "CHR ''.''" "'' ''" q] long_sentence_nth [of q]
  by (simp add: length_long_sentence)

lemma rfind_long_sentence:
  assumes "0 \<le> i" "i \<le> 300" "302 \<le> j" "j \<le> 3002"
  shows "str_rfind long_sentence ''. '' i j = 300"
proof -
  have "str_rfind long_sentence ''. '' i j = int 300"
  proof (rule str_rfind_last)
    show "0 \<le> i" "0 \<le> j" using assms by simp_all
    show "nat j \<le> length long_sentence" using assms by (simp add: length_long_sentence)
    show "nat i \<le> 300" using assms by simp
    show "300 + length ''. '' \<le> nat j" using assms by simp
    show "occurs_at long_sentence ''. '' 300" by (rule occurs_at_long_sentence_300)
    show "\<not> occurs_at long_sentence ''. '' q" if "300 < q" for q
      using occurs_at_long_sentence_only [of q] that by auto
  qed
  then show ?thesis by simp
qed

lemma chunk_step_long_sentence:
  assumes "0 \<le> start" "start \<le> 300"
  shows "fst (chunk_step long_sentence 2000 200 start chunks) = 102"
proof -
  have "str_rfind long_sentence ''. '' start (start + 2000) = 300"
    using assms by (intro rfind_long_sentence) simp_all
  then show ?thesis using assms
    by (simp add: chunk_step_def window_end_def length_long_sentence Let_def)
qed

lemma chunk_loop_long_sentence: "chunk_loop long_sentence 2000 200 102 chunks = None"
  by (rule chunk_loop_stuck) (simp_all add: length_long_sentence chunk_step_long_sentence)

lemma chunk_text_default_long_sentence: "chunk_text_default long_sentence = None"
  by (simp add: chunk_text_default_def chunk_text_def length_long_sentence
      chunk_loop.simps [of long_sentence 2000 200 0] chunk_step_long_sentence
      chunk_loop_long_sentence)

lemma add_document_long_sentence: "add_document p d name long_sentence = None"
  by (simp add: add_document_def document_chunks_def length_long_sentence
      chunk_text_default_long_sentence)

text \<open>
  Claim C10: the chunking loop terminates for every input text with the default
  parameters (chunk size 2000, overlap 200), the start index advancing on every pass, so
  that \<^verbatim>\<open>_chunk_text\<close> is total.  It is not: on a text of 3002 characters whose only
  sentence end is at position 300, the first pass cuts the window at 302 and restarts at
  102; every later pass finds the same sentence end again, cuts at 302 again and restarts
  at 102 again.  The loop never returns, which is the value \<open>None\<close> of
  \<^const>\<open>chunk_text_default\<close>, and \<^verbatim>\<open>add_document\<close>, which calls it on a text of this
  length, never returns either.
\<close>

theorem chunk_text_diverges:
  "chunk_text_default (replicate 300 (CHR ''a'') @ ''. '' @ replicate 2700 (CHR ''a'')) = None
   \<and> add_document blank_pipeline ''d'' ''Doc D''
         (replicate 300 (CHR ''a'') @ ''. '' @ replicate 2700 (CHR ''a'')) = None"
proof -
  have "chunk_text_default long_sentence = None
      \<and> add_document blank_pipeline ''d'' ''Doc D'' long_sentence = None"
    by (simp add: chunk_text_default_long_sentence add_document_long_sentence)
  then show ?thesis by (simp only: long_sentence_def)
qed

section \<open>Search on an empty store\<close>

text \<open>
  Claim C7: a query on an empty store is not an error.  For every query, if
  \<^verbatim>\<open>count()\<close> of the collection is 0 then \<^verbatim>\<open>search\<close> returns the pair of empty lists
  without raising, and the pipeline it leaves is the one it found: nothing was added to
  \<^const>\<open>calls\<close>, so the embedding backend was not called.
\<close>

theorem search_empty_store:
  "collection_count (collection p) = 0 \<Longrightarrow>
     search p query top_k = (Inr ([], []), p) \<and> calls (snd (search p query top_k)) = calls p"
  by (simp add: search_def)

text \<open>The pipeline of the witness has an embedding model that raises whenever it is called.\<close>

theorem search_empty_store_witness:
  "collection_count (collection empty_pipeline) = 0
   \<and> search empty_pipeline ''What color is the sky?'' 5 = (Inr ([], []), empty_pipeline)
   \<and> calls (snd (search empty_pipeline ''What color is the sky?'' 5)) = calls empty_pipeline"
proof -
  have h: "collection_count (collection empty_pipeline) = 0"
    by (simp add: empty_pipeline_def collection_count_def)
  from search_empty_store [OF h, of "''What color is the sky?''" 5] h show ?thesis by simp
qed

section \<open>Errors of the LLM provider\<close>

text \<open>
  Claim C5: errors of the LLM provider are never surfaced.  For every query and every list
  of retrieved contexts, if the call of the provider raises, whatever the exception,
  \<^verbatim>\<open>generate_response\<close> returns what the deterministic synthesizer
  \<^verbatim>\<open>_generate_simple_response\<close> returns on the same query, contexts and flag.  The result
  of \<^const>\<open>generate_response\<close> is a text, never an exception.
\<close>

theorem provider_error_falls_back:
  assumes "openai_client p = Some client"
    and "chat_completions_create client (build_prompt query ctxs found) = Inl e"
  shows "fst (generate_response p query ctxs found) = generate_simple_response query ctxs found"
  using assms by (simp add: generate_response_def generate_with_openai_def Let_def)

theorem provider_error_falls_back_witness:
  "openai_client timeout_pipeline = Some timeout_client
   \<and> chat_completions_create timeout_client (build_prompt ''How blue?'' [sky_context] True)
       = Inl (Exception ''Request timed out.'')
   \<and> fst (generate_response timeout_pipeline ''How blue?'' [sky_context] True)
       = ''Based on Doc A, here's what I found:\<newline>\<newline>The sky is blue. Grass is green.''"
proof -
  have h1: "openai_client timeout_pipeline = Some timeout_client"
    by (simp add: timeout_pipeline_def)
  have h2: "chat_completions_create timeout_client (build_prompt ''How blue?'' [sky_context] True)
      = Inl (Exception ''Request timed out.'')"
    by (simp add: timeout_client_def)
  have "generate_simple_response ''How blue?'' [sky_context] True
      = ''Based on Doc A, here's what I found:\<newline>\<newline>The sky is blue. Grass is green.''"
    by code_simp
  with provider_error_falls_back [OF h1 h2] h1 h2 show ?thesis by simp
qed

section \<open>The message when there is no context\<close>

text \<open>
  Claim C9 says that, for an empty list of retrieved contexts, the message of the
  deterministic synthesizer differs between the case where no documents are indexed and
  the case where documents exist but nothing relevant was found.  The synthesizer returns
  the same text in both: with the flag \<^verbatim>\<open>found_in_documents\<close> false or true, and through
  \<^verbatim>\<open>chat\<close> on a store with no documents and on a store with four chunks of which the
  query finds none.
\<close>

theorem no_context_message_same:
  "generate_simple_response ''How blue?'' [] False = generate_simple_response ''How blue?'' [] True
   \<and> map_sum id response (fst (chat empty_pipeline ''How blue?'' None ''u''))
       = map_sum id response (fst (chat silent_pipeline ''How blue?'' None ''u''))
   \<and> collection empty_pipeline = [] \<and> length (collection silent_pipeline) = 4"
proof -
  have "generate_simple_response ''How blue?'' [] False
      = generate_simple_response ''How blue?'' [] True"
    by (simp add: generate_simple_response_def)
  moreover have "map_sum id response (fst (chat empty_pipeline ''How blue?'' None ''u''))
      = Inr (generate_simple_response ''How blue?'' [] False)"
    by (simp add: chat_def search_def empty_pipeline_def collection_count_def
        select_contexts_def generate_response_def)
  moreover have "map_sum id response (fst (chat silent_pipeline ''How blue?'' None ''u''))
      = Inr (generate_simple_response ''How blue?'' [] False)"
    by (simp add: chat_def search_def silent_pipeline_def weak_pipeline_def doc_a_collection_def
        collection_count_def get_embeddings_def length_model_def
        select_contexts_def generate_response_def)
  moreover have "collection empty_pipeline = []" by (simp add: empty_pipeline_def)
  moreover have "length (collection silent_pipeline) = 4"
    by (simp add: silent_pipeline_def weak_pipeline_def doc_a_collection_def)
  ultimately show ?thesis by simp
qed

text \<open>
  Claim C9, amended: for every query and an empty list of retrieved contexts, the
  deterministic synthesizer returns one templated message, which names the query and asks
  to add documents to the knowledge base, whatever the flag \<^verbatim>\<open>found_in_documents\<close> is.
\<close>

theorem no_context_message:
  "generate_simple_response query [] found =
     ''I couldn't find specific information about '' @ [CHR 0x27] @ query @ [CHR 0x27]
     @ '' in your selected documents. ''
     @ ''Please make sure you've added documents to the knowledge base first.''"
  by (simp add: generate_simple_response_def)

section \<open>The contexts that \<^verbatim>\<open>chat\<close> selects\<close>

lemma search_scores:
  assumes "search p query top_k = (Inr (docs, scores), p')"
  shows "scores = map distance docs"
proof (cases "collection_count (collection p) = 0")
  case True
  with assms show ?thesis by (simp add: search_def)
next
  case False
  with assms show ?thesis
    by (auto simp: search_def Let_def comp_def case_prod_unfold split: prod.splits sum.splits)
qed

lemma filter_zip_map:
  "map fst (filter (\<lambda>(d, s). P s) (zip ds (map f ds))) = filter (\<lambda>d. P (f d)) ds"
  by (induction ds) auto

lemma select_contexts_distance:
  "select_contexts docs (map distance docs) =
     (docs \<noteq> [],
      if \<exists>d \<in> set docs. distance d < 1 then filter (\<lambda>d. distance d < 1) docs else take 3 docs)"
proof (cases "\<exists>d \<in> set docs. distance d < 1")
  case True
  then have "filter (\<lambda>d. distance d < 1) docs \<noteq> []" by (simp add: filter_empty_conv)
  moreover from True have "docs \<noteq> []" by auto
  ultimately show ?thesis using True
    by (simp add: select_contexts_def filter_zip_map Let_def)
next
  case False
  then have "filter (\<lambda>d. distance d < 1) docs = []" by (simp add: filter_empty_conv)
  then show ?thesis using False
    by (simp add: select_contexts_def filter_zip_map Let_def)
qed

lemma search_weak_pipeline:
  "search weak_pipeline ''How blue?'' 5 =
     (Inr (weak_results, [6/5, 13/10, 7/5, 3/2]), weak_pipeline\<lparr>calls := [Encode ''How blue?'']\<rparr>)"
  by (simp add: search_def weak_pipeline_def weak_results_def doc_a_collection_def
      collection_count_def get_embeddings_def length_model_def)

text \<open>
  Claim C3: threshold classification with soft fallback.  On the chat path, with the
  results \<open>docs\<close> that \<^verbatim>\<open>search\<close> returned, the contexts are the results whose distance
  is strictly below 1.0 when there is one, and otherwise the first three results, which
  are in the order of \<open>docs\<close> and so in ascending distance when \<open>docs\<close> is.  These
  contexts, with the flag that says whether there was any result, are what
  \<^verbatim>\<open>generate_response\<close> receives and what the sources of the answer are built from.
\<close>

theorem threshold_classification:
  assumes "search p query 5 = (Inr (docs, scores), p')"
  shows "let ctxs = (if \<exists>d \<in> set docs. distance d < 1
                     then filter (\<lambda>d. distance d < 1) docs else take 3 docs)
         in select_contexts docs scores = (docs \<noteq> [], ctxs)
            \<and> chat p query cid uuid4 =
                (Inr \<lparr>response = fst (generate_response p' query ctxs (docs \<noteq> [])),
                      sources = foldl source_step [] ctxs,
                      found_in_documents = (docs \<noteq> []),
                      conversation_id =
                        (case cid of None \<Rightarrow> uuid4 | Some c \<Rightarrow> if c \<noteq> [] then c else uuid4)\<rparr>,
                 snd (generate_response p' query ctxs (docs \<noteq> [])))
            \<and> (sorted (map distance docs) \<longrightarrow> sorted (map distance ctxs))"
proof -
  have s: "scores = map distance docs" using assms by (rule search_scores)
  have srt: "sorted (map distance (filter P docs))" "sorted (map distance (take n docs))"
    if "sorted (map distance docs)" for P n
    using that by (simp_all add: sorted_filter sorted_wrt_take take_map [symmetric] del: take_map)
  show ?thesis
    using assms srt
    by (simp add: Let_def s select_contexts_distance chat_def case_prod_unfold)
qed

text \<open>
  The witness is the store of four chunks that every query finds at the distances 1.2,
  1.3, 1.4 and 1.5: the first three are the contexts.
\<close>

theorem threshold_classification_witness:
  "search weak_pipeline ''How blue?'' 5 =
     (Inr (weak_results, [6/5, 13/10, 7/5, 3/2]), weak_pipeline\<lparr>calls := [Encode ''How blue?'']\<rparr>)
   \<and> sorted (map distance weak_results)
   \<and> select_contexts weak_results [6/5, 13/10, 7/5, 3/2] = (True, take 3 weak_results)
   \<and> map_sum id found_in_documents (fst (chat weak_pipeline ''How blue?'' None ''u'')) = Inr True
   \<and> map_sum id (map source_document_name \<circ> sources)
         (fst (chat weak_pipeline ''How blue?'' None ''u'')) = Inr [''Doc A'']
   \<and> sorted (map distance (take 3 weak_results))"
proof -
  have ex: "\<not> (\<exists>d \<in> set weak_results. distance d < 1)"
    by (simp add: weak_results_def doc_a_collection_def)
  have ne: "weak_results \<noteq> []"
    by (simp add: weak_results_def doc_a_collection_def)
  have srt: "sorted (map distance weak_results)"
    by (simp add: weak_results_def doc_a_collection_def)
  have src: "map source_document_name (foldl source_step [] (take 3 weak_results)) = [''Doc A'']"
    by (simp add: weak_results_def doc_a_collection_def doc_a_entry_def source_step_def)
  from threshold_classification [OF search_weak_pipeline, of None "''u''"] ex ne srt src
  show ?thesis
    by (simp add: search_weak_pipeline Let_def)
qed

section \<open>The answer on weak contexts\<close>

text \<open>
  Claim C8 says that on the chat path, when results are retrieved and none has a distance
  below the threshold, the answer is the hedged lead-in followed by the best context.
  On the store of four chunks that are found at the distances 1.2 to 1.5 and without an
  LLM client, the answer of \<^verbatim>\<open>chat\<close> is the one of the branch for documents that were
  found: it starts with \<open>Based on Doc A\<close> and joins the first three chunks.
\<close>

theorem weak_context_answer_not_hedged:
  "map_sum id response (fst (chat weak_pipeline ''How blue?'' None ''u''))
     = Inr ''Based on Doc A, here's what I found:\<newline>\<newline>The sky is blue. Grass is green. Snow is white.''
   \<and> map_sum id response (fst (chat weak_pipeline ''How blue?'' None ''u''))
     \<noteq> Inr (''I found some information in your documents, though it may not directly answer ''
            @ [CHR 0x27] @ ''How blue?'' @ [CHR 0x27] @ '':\<newline>\<newline>'' @ ''The sky is blue.'')
   \<and> map distance weak_results = [6/5, 13/10, 7/5, 3/2]"
proof -
  have "map_sum id response (fst (chat weak_pipeline ''How blue?'' None ''u''))
     = Inr ''Based on Doc A, here's what I found:\<newline>\<newline>The sky is blue. Grass is green. Snow is white.''"
    by code_simp
  moreover have "map distance weak_results = [6/5, 13/10, 7/5, 3/2]"
    by (simp add: weak_results_def doc_a_collection_def)
  ultimately show ?thesis by simp
qed

lemma select_contexts_nonempty:
  assumes "docs \<noteq> []"
  shows "fst (select_contexts docs scores) \<and> snd (select_contexts docs scores) \<noteq> []"
  using assms by (auto simp: select_contexts_def Let_def)

lemma found_response_based_on: "take 9 (found_response query ctxs) = ''Based on ''"
  by (simp add: found_response_def Let_def)

text \<open>
  Claim C8, amended: the hedged answer is what the deterministic synthesizer returns when
  it is called with \<^verbatim>\<open>found_in_documents\<close> false on a list of contexts whose first
  content is not empty: the lead-in that names the query, the first 600 characters of
  that content, and three dots when the content is longer.  On the chat path the case of
  results that are all at distance 1.0 or more sets \<^verbatim>\<open>found_in_documents\<close> to true and
  passes contexts, so the synthesizer takes the branch for documents that were found and
  its answer starts with \<open>Based on\<close>.
\<close>

theorem weak_context_answer:
  "(ctxs \<noteq> [] \<and> content (hd ctxs) \<noteq> [] \<longrightarrow>
      generate_simple_response query ctxs False =
        ''I found some information in your documents, though it may not directly answer ''
        @ [CHR 0x27] @ query @ [CHR 0x27] @ '':\<newline>\<newline>''
        @ take 600 (content (hd ctxs))
        @ (if length (content (hd ctxs)) > 600 then ''...'' else []))
   \<and> (docs \<noteq> [] \<longrightarrow>
        (case select_contexts docs scores of
           (found, relevant) \<Rightarrow>
             found \<and> relevant \<noteq> []
             \<and> generate_simple_response query relevant found = found_response query relevant
             \<and> take 9 (generate_simple_response query relevant found) = ''Based on ''))"
proof -
  have "generate_simple_response query ctxs False =
        ''I found some information in your documents, though it may not directly answer ''
        @ [CHR 0x27] @ query @ [CHR 0x27] @ '':\<newline>\<newline>''
        @ take 600 (content (hd ctxs))
        @ (if length (content (hd ctxs)) > 600 then ''...'' else [])"
    if "ctxs \<noteq> []" "content (hd ctxs) \<noteq> []"
    using that by (simp add: generate_simple_response_def Let_def)
  moreover have "case select_contexts docs scores of
           (found, relevant) \<Rightarrow>
             found \<and> relevant \<noteq> []
             \<and> generate_simple_response query relevant found = found_response query relevant
             \<and> take 9 (generate_simple_response query relevant found) = ''Based on ''"
    if "docs \<noteq> []"
    using select_contexts_nonempty [OF that, of scores]
    by (simp add: case_prod_unfold generate_simple_response_def found_response_based_on)
  ultimately show ?thesis by blast
qed

theorem weak_context_answer_witness:
  "[sky_context] \<noteq> [] \<and> content (hd [sky_context]) \<noteq> []
   \<and> generate_simple_response ''How blue?'' [sky_context] False =
        ''I found some information in your documents, though it may not directly answer ''
        @ [CHR 0x27] @ ''How blue?'' @ [CHR 0x27] @ '':\<newline>\<newline>''
        @ ''The sky is blue. Grass is green.''
   \<and> weak_results \<noteq> []
   \<and> select_contexts weak_results [6/5, 13/10, 7/5, 3/2] = (True, take 3 weak_results)
   \<and> take 9 (generate_simple_response ''How blue?'' (take 3 weak_results) True) = ''Based on ''"
proof -
  have c: "content (hd [sky_context]) = ''The sky is blue. Grass is green.''"
    by (simp add: sky_context_def)
  have ne: "weak_results \<noteq> []"
    by (simp add: weak_results_def doc_a_collection_def)
  have sel: "select_contexts weak_results [6/5, 13/10, 7/5, 3/2] = (True, take 3 weak_results)"
    by (simp add: select_contexts_def weak_results_def doc_a_collection_def)
  from weak_context_answer [of "[sky_context]" "''How blue?''" weak_results "[6/5, 13/10, 7/5, 3/2]"]
    c ne sel
  show ?thesis by (simp add: found_response_based_on)
qed

section \<open>The chunker on texts without a sentence end\<close>

lemma str_rfind_none:
  assumes "\<And>q. \<not> occurs_at s sub q"
  shows "str_rfind s sub i j = - 1"
proof -
  have "List.find (occurs_at s sub) xs = None" for xs
    using assms by (simp add: find_None_iff)
  then show ?thesis by (simp add: str_rfind_def Let_def)
qed

lemma no_period_occurs_at:
  assumes "CHR ''.'' \<notin> set s"
  shows "\<not> occurs_at s (CHR ''.'' # cs) q"
proof
  assume "occurs_at s (CHR ''.'' # cs) q"
  then have "q < length s \<and> s ! q = CHR ''.''" by (rule occurs_at_hd)
  then have "CHR ''.'' \<in> set s" using nth_mem [of q s] by simp
  with assms show False by simp
qed

lemma window_end_no_period:
  assumes "CHR ''.'' \<notin> set text"
  shows "window_end text chunk_size start = start + chunk_size"
  using assms
  by (simp add: window_end_def Let_def str_rfind_none no_period_occurs_at)

lemma dropWhile_replicate_append:
  "dropWhile P (replicate n x @ ys) =
     (if P x \<or> n = 0 then dropWhile P ys else replicate n x @ ys)"
  by (induction n) auto

lemma str_strip_padded:
  assumes "\<not> isspace a" "0 < n"
  shows "str_strip (replicate k (CHR '' '') @ replicate n a @ replicate m (CHR '' '')) = replicate n a"
proof -
  have sp: "isspace (CHR '' '')" by (simp add: isspace_def)
  have "dropWhile isspace (replicate k (CHR '' '') @ replicate n a @ replicate m (CHR '' ''))
      = replicate n a @ replicate m (CHR '' '')"
    using sp assms by (simp add: dropWhile_replicate_append)
  moreover have "dropWhile isspace (replicate m (CHR '' '') @ replicate n a @ []) = replicate n a"
    using sp assms by (simp only: dropWhile_replicate_append) simp
  ultimately show ?thesis by (simp add: str_strip_def)
qed

lemma spaced_text_no_period: "CHR ''.'' \<notin> set spaced_text"
  by (simp add: spaced_text_def)

lemma length_spaced_text: "length spaced_text = 3000"
  by (simp add: spaced_text_def)

lemma not_isspace_a: "\<not> isspace (CHR ''a'')"
  by (simp add: isspace_def)

lemma spaced_text_step1:
  "chunk_step spaced_text 2000 200 0 [] = (1800, [replicate 1700 (CHR ''a'')])"
proof -
  have "str_slice spaced_text 0 2000 = replicate 0 (CHR '' '') @ replicate 1700 (CHR ''a'') @ replicate 300 (CHR '' '')"
    by (simp add: str_slice_def slice_index_def spaced_text_def)
  then have "str_strip (str_slice spaced_text 0 2000) = replicate 1700 (CHR ''a'')"
    by (simp only: str_strip_padded [OF not_isspace_a] zero_less_numeral)
  then show ?thesis
    by (simp add: chunk_step_def window_end_no_period spaced_text_no_period length_spaced_text Let_def)
qed

lemma spaced_text_step2:
  "chunk_step spaced_text 2000 200 1800 [replicate 1700 (CHR ''a'')]
     = (3800, [replicate 1700 (CHR ''a''), replicate 900 (CHR ''a'')])"
proof -
  have "str_slice spaced_text 1800 3800 = replicate 300 (CHR '' '') @ replicate 900 (CHR ''a'') @ replicate 0 (CHR '' '')"
    by (simp add: str_slice_def slice_index_def spaced_text_def)
  then have "str_strip (str_slice spaced_text 1800 3800) = replicate 900 (CHR ''a'')"
    by (simp only: str_strip_padded [OF not_isspace_a] zero_less_numeral)
  then show ?thesis
    by (simp add: chunk_step_def window_end_no_period spaced_text_no_period length_spaced_text Let_def)
qed

lemma chunk_text_spaced_text:
  "chunk_text_default spaced_text = Some [replicate 1700 (CHR ''a''), replicate 900 (CHR ''a'')]"
proof -
  have "chunk_loop spaced_text 2000 200 3800 cs = Some cs" for cs
    by (subst chunk_loop.simps) (simp add: length_spaced_text)
  then have "chunk_loop spaced_text 2000 200 1800 [replicate 1700 (CHR ''a'')]
      = Some [replicate 1700 (CHR ''a''), replicate 900 (CHR ''a'')]"
    by (subst chunk_loop.simps) (simp add: length_spaced_text spaced_text_step2)
  then have "chunk_loop spaced_text 2000 200 0 []
      = Some [replicate 1700 (CHR ''a''), replicate 900 (CHR ''a'')]"
    by (subst chunk_loop.simps) (simp add: length_spaced_text spaced_text_step1)
  then show ?thesis
    by (simp add: chunk_text_default_def chunk_text_def length_spaced_text)
qed

section \<open>Windows and chunks\<close>

lemma chunk_loop_windows:
  assumes "chunk_loop text chunk_size overlap start chunks = Some r"
  shows "\<exists>ws. chunk_windows text chunk_size overlap start ws \<and> r = chunks @ window_chunks text ws"
proof (rule chunk_loop.raw_induct
    [where P = "\<lambda>t c ov s cs z. \<exists>ws. chunk_windows t c ov s ws \<and> z = cs @ window_chunks t ws",
      OF _ assms])
  fix f t c ov s cs z
  assume IH: "\<And>t c ov s cs z. f t c ov s cs = Some z \<Longrightarrow>
      \<exists>ws. chunk_windows t c ov s ws \<and> z = cs @ window_chunks t ws"
    and body: "(if s < int (length t)
        then f t c ov (fst (chunk_step t c ov s cs)) (snd (chunk_step t c ov s cs))
        else Some cs) = Some z"
  show "\<exists>ws. chunk_windows t c ov s ws \<and> z = cs @ window_chunks t ws"
  proof (cases "s < int (length t)")
    case False
    with body have "z = cs" by simp
    moreover from False have "chunk_windows t c ov s []" by (rule chunk_windows.finished)
    ultimately show ?thesis by (auto simp: window_chunks_def)
  next
    case True
    define e where "e = window_end t c s"
    from True body have "f t c ov (fst (chunk_step t c ov s cs)) (snd (chunk_step t c ov s cs)) = Some z"
      by simp
    from IH [OF this] obtain ws where
      ws: "chunk_windows t c ov (fst (chunk_step t c ov s cs)) ws"
      and z: "z = snd (chunk_step t c ov s cs) @ window_chunks t ws"
      by blast
    have nxt: "fst (chunk_step t c ov s cs) = (if e < int (length t) then e - ov else e)"
      by (simp add: chunk_step_def Let_def e_def)
    have chs: "snd (chunk_step t c ov s cs) = cs @ window_chunks t [(s, e)]"
      by (simp add: chunk_step_def Let_def e_def window_chunks_def)
    have "chunk_windows t c ov s ((s, e) # ws)"
      using True e_def ws [unfolded nxt] by (rule chunk_windows.window)
    moreover have "z = cs @ window_chunks t ((s, e) # ws)"
      using z chs by (simp add: window_chunks_def)
    ultimately show ?thesis by blast
  qed
qed

lemma take_drop_rest:
  "a \<le> b \<Longrightarrow> take (b - a) (drop a xs) @ drop b xs = drop a xs"
  by (metis add_diff_inverse_nat append_take_drop_id drop_drop not_less add.commute)

lemma windows_tail:
  assumes "chunk_windows text chunk_size overlap start ws"
    and "0 \<le> overlap" "0 \<le> start" "\<forall>(s, e) \<in> set ws. overlap \<le> e - s"
  shows "concat (map (\<lambda>(s, e). drop (nat overlap) (str_slice text s e)) ws)
           = drop (nat (start + overlap)) text"
  using assms
proof (induction rule: chunk_windows.induct)
  case (finished start)
  then show ?case by simp
next
  case (window start end1 ws)
  let ?n = "length text"
  let ?next = "if end1 < int ?n then end1 - overlap else end1"
  from window.prems have len: "overlap \<le> end1 - start" by simp
  with window.prems have e0: "0 \<le> end1" and nx: "0 \<le> ?next" by auto
  have IH: "concat (map (\<lambda>(s, e). drop (nat overlap) (str_slice text s e)) ws)
      = drop (nat (?next + overlap)) text"
    using window.IH window.prems nx by simp
  have sl: "drop (nat overlap) (str_slice text start end1)
      = take (min (nat end1) ?n - nat (start + overlap)) (drop (nat (start + overlap)) text)"
    using window.hyps(1) window.prems(1,2) e0
    by (simp add: str_slice_def slice_index_def Let_def drop_take nat_add_distrib add.commute)
  show ?case
  proof (cases "end1 < int ?n")
    case True
    then have "min (nat end1) ?n = nat end1" by simp
    moreover have "nat (?next + overlap) = nat end1" using True by simp
    moreover have "nat (start + overlap) \<le> nat end1" using len by simp
    ultimately show ?thesis
      using sl IH by (simp add: take_drop_rest)
  next
    case False
    then have "min (nat end1) ?n = ?n" by simp
    moreover have "drop (nat (?next + overlap)) text = []" using False window.prems(1) by simp
    ultimately show ?thesis using sl IH by simp
  qed
qed

section \<open>Chunks and the text they come from\<close>

lemma chunk_windows_deterministic:
  assumes "chunk_windows text chunk_size overlap start ws"
    and "chunk_windows text chunk_size overlap start ws'"
  shows "ws = ws'"
  using assms
proof (induction arbitrary: ws' rule: chunk_windows.induct)
  case (finished start)
  then show ?case by (auto elim: chunk_windows.cases)
next
  case (window start end1 ws)
  from window.prems window.hyps(1,2) obtain ws'' where
    "ws' = (start, end1) # ws''"
    "chunk_windows text chunk_size overlap
       (if end1 < int (length text) then end1 - overlap else end1) ws''"
    by (auto elim: chunk_windows.cases)
  with window.IH show ?case by simp
qed

lemma set_strip_overlaps: "set (strip_overlaps prev chunks) \<subseteq> set (concat chunks)"
  by (induction chunks arbitrary: prev) (auto dest: in_set_dropD)

lemma set_reconstruct: "set (reconstruct chunks) \<subseteq> set (concat chunks)"
  using set_strip_overlaps by (cases chunks) (auto simp: reconstruct_def)

text \<open>
  Claim C4 says that the chunk texts of a text longer than the chunk size, concatenated
  after each chunk but the first has lost the overlapping prefix it shares with its
  predecessor, are the text again.  The text of 3000 characters with 400 spaces after
  its first 1700 letters gives two chunks, of 1700 and of 900 letters: the spaces at the
  end of the first window and at the start of the second were trimmed away, no chunk has
  a space, and no way of joining the chunks gives the text back.
\<close>

theorem chunks_lose_white_space:
  "int (length spaced_text) > 2000
   \<and> chunk_text_default spaced_text = Some [replicate 1700 (CHR ''a''), replicate 900 (CHR ''a'')]
   \<and> reconstruct [replicate 1700 (CHR ''a''), replicate 900 (CHR ''a'')] \<noteq> spaced_text"
proof -
  have "CHR '' '' \<notin> set (reconstruct [replicate 1700 (CHR ''a''), replicate 900 (CHR ''a'')])"
    using set_reconstruct [of "[replicate 1700 (CHR ''a''), replicate 900 (CHR ''a'')]"] by auto
  moreover have "CHR '' '' \<in> set spaced_text" by (simp add: spaced_text_def)
  ultimately have "reconstruct [replicate 1700 (CHR ''a''), replicate 900 (CHR ''a'')] \<noteq> spaced_text"
    by metis
  then show ?thesis by (simp add: length_spaced_text chunk_text_spaced_text)
qed

text \<open>
  Claim C4, amended: when \<^verbatim>\<open>_chunk_text\<close> returns on a text longer than the chunk
  size, its chunks are the texts \<^verbatim>\<open>text[start:end]\<close> of the windows that the loop
  visits, each trimmed of white space and left out when nothing remains.  The untrimmed
  texts of the windows, concatenated after each but the first has lost its first
  \<open>overlap\<close> characters, are the text again, when the overlap is not negative and
  every window is at least \<open>overlap\<close> characters long.  White space that is trimmed
  off a window is not in its chunk.
\<close>

theorem chunks_are_trimmed_windows:
  assumes "chunk_size < int (length text)"
    and "chunk_text text chunk_size overlap = Some chunks"
  shows "\<exists>ws. chunk_windows text chunk_size overlap 0 ws
           \<and> chunks = window_chunks text ws
           \<and> (0 \<le> overlap \<and> (\<forall>(s, e) \<in> set ws. overlap \<le> e - s)
                \<longrightarrow> join_windows (nat overlap) (window_texts text ws) = text)"
proof -
  from assms have "chunk_loop text chunk_size overlap 0 [] = Some chunks"
    by (simp add: chunk_text_def)
  then obtain ws where ws: "chunk_windows text chunk_size overlap 0 ws"
    and ch: "chunks = window_chunks text ws"
    using chunk_loop_windows by fastforce
  have "join_windows (nat overlap) (window_texts text ws) = text"
    if ov: "0 \<le> overlap" and len: "\<forall>(s, e) \<in> set ws. overlap \<le> e - s"
    using ws
  proof (cases rule: chunk_windows.cases)
    case finished
    then show ?thesis by (simp add: window_texts_def)
  next
    case (window end1 ws')
    let ?n = "length text"
    let ?next = "if end1 < int ?n then end1 - overlap else end1"
    from window len have l0: "overlap \<le> end1" and l': "\<forall>(s, e) \<in> set ws'. overlap \<le> e - s"
      by auto
    with ov have nx: "0 \<le> ?next" by auto
    have tail: "concat (map (\<lambda>(s, e). drop (nat overlap) (str_slice text s e)) ws')
        = drop (nat (?next + overlap)) text"
      using windows_tail [OF window(4) ov nx l'] .
    have first: "str_slice text 0 end1 = take (nat end1) text"
      using l0 ov by (auto simp: str_slice_def slice_index_def Let_def min_def)
    have "join_windows (nat overlap) (window_texts text ws)
        = take (nat end1) text @ drop (nat (?next + overlap)) text"
      using window(1) tail first
      by (simp add: window_texts_def comp_def case_prod_unfold)
    also have "\<dots> = text"
    proof (cases "end1 < int ?n")
      case True
      then show ?thesis by simp
    next
      case False
      with ov show ?thesis by simp
    qed
    finally show ?thesis .
  qed
  with ws ch show ?thesis by blast
qed


lemma spaced_text_windows:
  "chunk_windows spaced_text 2000 200 0 [(0, 2000), (1800, 3800)]"
proof -
  have w2: "chunk_windows spaced_text 2000 200 3800 []"
    by (rule chunk_windows.finished) (simp add: length_spaced_text)
  have w1: "chunk_windows spaced_text 2000 200 1800 [(1800, 3800)]"
    by (rule chunk_windows.window)
      (simp_all add: length_spaced_text window_end_no_period spaced_text_no_period w2)
  show ?thesis
    by (rule chunk_windows.window)
      (simp_all add: length_spaced_text window_end_no_period spaced_text_no_period w1)
qed

text \<open>
  The witness is the text of the counterexample with the default parameters: its windows
  are \<open>[0, 2000)\<close> and \<open>[1800, 3800)\<close>, and their texts give the text back while their
  chunks do not.
\<close>

theorem chunks_are_trimmed_windows_witness:
  "2000 < int (length spaced_text)
   \<and> chunk_text spaced_text 2000 200 = Some [replicate 1700 (CHR ''a''), replicate 900 (CHR ''a'')]
   \<and> chunk_windows spaced_text 2000 200 0 [(0, 2000), (1800, 3800)]
   \<and> [replicate 1700 (CHR ''a''), replicate 900 (CHR ''a'')]
       = window_chunks spaced_text [(0, 2000), (1800, 3800)]
   \<and> join_windows 200 (window_texts spaced_text [(0, 2000), (1800, 3800)]) = spaced_text"
proof -
  have h1: "2000 < int (length spaced_text)" by (simp add: length_spaced_text)
  have h2: "chunk_text spaced_text 2000 200
      = Some [replicate 1700 (CHR ''a''), replicate 900 (CHR ''a'')]"
    using chunk_text_spaced_text by (simp add: chunk_text_default_def)
  from chunks_are_trimmed_windows [OF h1 h2] obtain ws where
    ws: "chunk_windows spaced_text 2000 200 0 ws"
    and ch: "[replicate 1700 (CHR ''a''), replicate 900 (CHR ''a'')] = window_chunks spaced_text ws"
    and jn: "0 \<le> (200 :: int) \<and> (\<forall>(s, e) \<in> set ws. 200 \<le> e - s)
        \<longrightarrow> join_windows (nat 200) (window_texts spaced_text ws) = spaced_text"
    by blast
  have eq: "ws = [(0, 2000), (1800, 3800)]"
    using ws spaced_text_windows by (rule chunk_windows_deterministic)
  from jn have "join_windows 200 (window_texts spaced_text [(0, 2000), (1800, 3800)]) = spaced_text"
    unfolding eq by simp
  with h1 h2 spaced_text_windows ch [unfolded eq] show ?thesis by simp
qed

section \<open>Documents below the single chunk threshold\<close>

lemma str_strip_replicate:
  assumes "\<not> isspace a"
  shows "str_strip (replicate n a) = replicate n a"
  using assms by (simp add: str_strip_def dropWhile_replicate_append [where ys = "[]", simplified])

lemma get_embeddings_collection:
  "get_embeddings p t = (r, p') \<Longrightarrow> collection p' = collection p"
  by (auto simp: get_embeddings_def split: option.splits if_splits)

lemma get_embeddings_list_collection:
  "get_embeddings_list p chunks = (r, p') \<Longrightarrow> collection p' = collection p"
proof (induction chunks arbitrary: p r p')
  case Nil
  then show ?case by simp
next
  case (Cons chunk chunks)
  obtain r1 p1 where g: "get_embeddings p chunk = (r1, p1)" by (cases "get_embeddings p chunk")
  then have c1: "collection p1 = collection p" by (rule get_embeddings_collection)
  show ?case
  proof (cases r1)
    case (Inl e)
    with Cons.prems g c1 show ?thesis by simp
  next
    case (Inr v)
    obtain r2 p2 where l: "get_embeddings_list p1 chunks = (r2, p2)"
      by (cases "get_embeddings_list p1 chunks")
    then have "collection p2 = collection p1" by (rule Cons.IH)
    with Cons.prems g Inr l c1 show ?thesis by (cases r2) auto
  qed
qed

lemma embed_chunks_collection:
  "embed_chunks p chunks = (r, p') \<Longrightarrow> collection p' = collection p"
  by (auto simp: embed_chunks_def get_embeddings_list_collection split: option.splits if_splits)

lemma str_nat_0: "str_nat 0 = ''0''"
  by code_simp

lemma str_nat_1: "str_nat (Suc 0) = ''1''"
  by code_simp

lemma length_letters: "length letters = 3000"
  by (simp add: letters_def)

lemma letters_no_period: "CHR ''.'' \<notin> set letters"
  by (simp add: letters_def)

lemma chunk_text_letters:
  "chunk_text_default letters = Some [replicate 2000 (CHR ''a''), replicate 1200 (CHR ''a'')]"
proof -
  have s1: "chunk_step letters 2000 200 0 [] = (1800, [replicate 2000 (CHR ''a'')])"
    by (simp add: chunk_step_def window_end_no_period letters_no_period length_letters Let_def
        str_slice_def slice_index_def str_strip_replicate not_isspace_a)
      (simp add: letters_def str_strip_replicate not_isspace_a)
  have s2: "chunk_step letters 2000 200 1800 [replicate 2000 (CHR ''a'')]
      = (3800, [replicate 2000 (CHR ''a''), replicate 1200 (CHR ''a'')])"
    by (simp add: chunk_step_def window_end_no_period letters_no_period length_letters Let_def
        str_slice_def slice_index_def)
      (simp add: letters_def str_strip_replicate not_isspace_a)
  have "chunk_loop letters 2000 200 3800 cs = Some cs" for cs
    by (subst chunk_loop.simps) (simp add: length_letters)
  then have "chunk_loop letters 2000 200 1800 [replicate 2000 (CHR ''a'')]
      = Some [replicate 2000 (CHR ''a''), replicate 1200 (CHR ''a'')]"
    by (subst chunk_loop.simps) (simp add: length_letters s2)
  then have "chunk_loop letters 2000 200 0 []
      = Some [replicate 2000 (CHR ''a''), replicate 1200 (CHR ''a'')]"
    by (subst chunk_loop.simps) (simp add: length_letters s1)
  then show ?thesis
    by (simp add: chunk_text_default_def chunk_text_def length_letters)
qed

lemma add_document_letters:
  "map_option (map entry_document \<circ> collection \<circ> snd)
     (add_document blank_pipeline ''d'' ''Doc D'' letters)
   = Some [replicate 2000 (CHR ''a''), replicate 1200 (CHR ''a'')]"
proof -
  have ids: "chunk_id ''d'' 0 \<noteq> chunk_id ''d'' (Suc 0)"
    by (simp add: chunk_id_def str_nat_0 str_nat_1)
  have "document_chunks letters = Some [replicate 2000 (CHR ''a''), replicate 1200 (CHR ''a'')]"
    by (simp add: document_chunks_def length_letters chunk_text_letters)
  then show ?thesis
    using ids
    by (simp add: add_document_def store_chunks_def str_strip_replicate not_isspace_a
        embed_chunks_def blank_pipeline_def empty_pipeline_def length_model_def
        collection_add_def Let_def)
qed

text \<open>
  Claim C2 says that a document whose text has at most 3000 characters and is not only
  white space is stored as exactly one chunk, whose text is the trimmed input.  The text
  of a space and a letter is stored with its space.  The text of exactly 3000 letters is
  not on the single chunk path, whose test is \<^verbatim>\<open>len(content) < 3000\<close>: it goes through
  \<^verbatim>\<open>_chunk_text\<close> and is stored as two chunks, of 2000 and of 1200 letters.
\<close>

theorem single_chunk_not_trimmed:
  "length '' a'' \<le> 3000 \<and> str_strip '' a'' = ''a''
   \<and> map_option (map entry_document \<circ> collection \<circ> snd)
         (add_document blank_pipeline ''d'' ''Doc D'' '' a'') = Some ['' a'']
   \<and> length letters \<le> 3000 \<and> str_strip letters \<noteq> []
   \<and> map_option (map entry_document \<circ> collection \<circ> snd)
         (add_document blank_pipeline ''d'' ''Doc D'' letters)
       = Some [replicate 2000 (CHR ''a''), replicate 1200 (CHR ''a'')]"
proof -
  have "str_strip '' a'' = ''a''" by code_simp
  moreover have "map_option (map entry_document \<circ> collection \<circ> snd)
         (add_document blank_pipeline ''d'' ''Doc D'' '' a'') = Some ['' a'']"
    by code_simp
  moreover have "str_strip letters \<noteq> []"
    by (simp add: letters_def str_strip_replicate not_isspace_a)
  ultimately show ?thesis
    by (simp add: length_letters add_document_letters)
qed

text \<open>
  Claim C2, amended: for every document whose text has fewer than 3000 characters and is
  not only white space, \<^verbatim>\<open>add_document\<close> stores exactly one chunk, with the chunk
  index 0 and the id of the document and \<open>0\<close>, and the stored text is the input text as
  it is, not trimmed.  This is when the embedding backend returns one vector for the one
  text and the collection has no record with that id yet.
\<close>

theorem single_chunk_document:
  assumes "length raw_text < 3000" and "str_strip raw_text \<noteq> []"
    and "embed_chunks p [raw_text] = (Inr [v], p')"
    and "chunk_id d 0 \<notin> set (map entry_id (collection p))"
  shows "add_document p d name raw_text =
           Some (Inr (), p'\<lparr>collection := collection p @
             [\<lparr>entry_id = chunk_id d 0, entry_embedding = v, entry_document = raw_text,
               entry_metadata = \<lparr>document_id = Some d, document_name = Some name,
                                  chunk_index = Some 0\<rparr>\<rparr>]\<rparr>)"
proof -
  have c: "collection p' = collection p" using assms(3) by (rule embed_chunks_collection)
  have "document_chunks raw_text = Some [raw_text]"
    using assms(1,2) by (simp add: document_chunks_def)
  then show ?thesis
    using assms c
    by (simp add: add_document_def store_chunks_def collection_add_def Let_def)
qed

theorem single_chunk_document_witness:
  "length '' The sky is blue. '' < 3000 \<and> str_strip '' The sky is blue. '' \<noteq> []
   \<and> embed_chunks blank_pipeline ['' The sky is blue. '']
       = (Inr [18], blank_pipeline\<lparr>calls := [Encode_Batch ['' The sky is blue. '']]\<rparr>)
   \<and> chunk_id ''d'' 0 \<notin> set (map entry_id (collection blank_pipeline))
   \<and> map_option (map entry_document \<circ> collection \<circ> snd)
         (add_document blank_pipeline ''d'' ''Doc D'' '' The sky is blue. '')
       = Some ['' The sky is blue. '']"
proof -
  have h1: "length '' The sky is blue. '' < 3000" by simp
  have h2: "str_strip '' The sky is blue. '' \<noteq> []" by code_simp
  have h3: "embed_chunks blank_pipeline ['' The sky is blue. '']
       = (Inr [18], blank_pipeline\<lparr>calls := [Encode_Batch ['' The sky is blue. '']]\<rparr>)"
    by (simp add: embed_chunks_def blank_pipeline_def empty_pipeline_def length_model_def)
  have h4: "chunk_id ''d'' 0 \<notin> set (map entry_id (collection blank_pipeline))"
    by (simp add: blank_pipeline_def empty_pipeline_def)
  from single_chunk_document [OF h1 h2 h3 h4, of "''Doc D''"] h1 h2 h3 h4
  show ?thesis by (simp add: blank_pipeline_def empty_pipeline_def)
qed

section \<open>The ids of the chunks\<close>

lemma of_char_digit_char: "d < 10 \<Longrightarrow> of_char (digit_char d) = 48 + d"
  by (simp add: digit_char_def)

lemma digit_char_inj:
  assumes "d < 10" "d' < 10" "digit_char d = digit_char d'"
  shows "d = d'"
proof -
  have "(of_char (digit_char d) :: nat) = of_char (digit_char d')" using assms(3) by simp
  then have "48 + d = 48 + d'"
    by (simp only: of_char_digit_char [OF assms(1)] of_char_digit_char [OF assms(2)])
  then show ?thesis by simp
qed

lemma digit_char_not_underscore:
  assumes "d < 10"
  shows "digit_char d \<noteq> CHR ''_''"
proof
  assume "digit_char d = CHR ''_''"
  then have "(of_char (digit_char d) :: nat) = of_char (CHR ''_'')" by simp
  then have "48 + d = 95" by (simp add: of_char_digit_char [OF assms])
  with assms show False by simp
qed

lemma str_nat_not_empty: "str_nat n \<noteq> []"
  by (subst str_nat.simps) simp

lemma str_nat_no_underscore: "CHR ''_'' \<notin> set (str_nat n)"
proof (induction n rule: str_nat.induct)
  case (1 n)
  show ?case
  proof (cases "n < 10")
    case True
    then show ?thesis
      using digit_char_not_underscore [of n] by (subst str_nat.simps) auto
  next
    case False
    with 1 have "CHR ''_'' \<notin> set (str_nat (n div 10))" by simp
    moreover have "digit_char (n mod 10) \<noteq> CHR ''_''"
      by (rule digit_char_not_underscore) simp
    ultimately show ?thesis using False by (subst str_nat.simps) auto
  qed
qed

lemma str_nat_inj: "str_nat n = str_nat m \<Longrightarrow> n = m"
proof (induction n arbitrary: m rule: str_nat.induct)
  case (1 n)
  have n: "str_nat n = (if n < 10 then [digit_char n]
      else str_nat (n div 10) @ [digit_char (n mod 10)])"
    by (subst str_nat.simps) simp
  have m: "str_nat m = (if m < 10 then [digit_char m]
      else str_nat (m div 10) @ [digit_char (m mod 10)])"
    by (subst str_nat.simps) simp
  show ?case
  proof (cases "n < 10")
    case True
    show ?thesis
    proof (cases "m < 10")
      case m10: True
      with True "1.prems" n m have "digit_char n = digit_char m" by simp
      with True m10 show ?thesis by (intro digit_char_inj)
    next
      case False
      with True "1.prems" n m str_nat_not_empty [of "m div 10"] show ?thesis by auto
    qed
  next
    case False
    show ?thesis
    proof (cases "m < 10")
      case True
      with False "1.prems" n m str_nat_not_empty [of "n div 10"] show ?thesis by auto
    next
      case m10: False
      with False "1.prems" n m have eq: "str_nat (n div 10) = str_nat (m div 10)"
        and dg: "digit_char (n mod 10) = digit_char (m mod 10)" by auto
      from "1.IH" [OF False eq] have "n div 10 = m div 10" .
      moreover have "n mod 10 = m mod 10"
        using dg by (intro digit_char_inj) simp_all
      ultimately show ?thesis by (metis div_mult_mod_eq)
    qed
  qed
qed

lemma split_at_last_underscore:
  assumes "xs @ CHR ''_'' # u = ys @ CHR ''_'' # v"
    and "CHR ''_'' \<notin> set u" "CHR ''_'' \<notin> set v"
  shows "xs = ys \<and> u = v"
proof -
  have "rev u @ CHR ''_'' # rev xs = rev v @ CHR ''_'' # rev ys"
    using arg_cong [OF assms(1), of rev] by simp
  then have "takeWhile (\<lambda>c. c \<noteq> CHR ''_'') (rev u @ CHR ''_'' # rev xs)
      = takeWhile (\<lambda>c. c \<noteq> CHR ''_'') (rev v @ CHR ''_'' # rev ys)" by simp
  moreover have "takeWhile (\<lambda>c. c \<noteq> CHR ''_'') (rev u) = rev u"
    "takeWhile (\<lambda>c. c \<noteq> CHR ''_'') (rev v) = rev v"
    using assms(2,3) by (auto simp: takeWhile_eq_all_conv)
  ultimately have "rev u = rev v" by (simp add: takeWhile_tail)
  then have "u = v" by simp
  with assms(1) show ?thesis by simp
qed

lemma chunk_id_inj: "chunk_id d i = chunk_id d' i' \<Longrightarrow> d = d' \<and> i = i'"
  using split_at_last_underscore [of d "str_nat i" d' "str_nat i'"] str_nat_no_underscore
    str_nat_inj
  by (auto simp: chunk_id_def)

section \<open>Removing and storing the chunks of a document\<close>

lemma wf_entry_id:
  assumes "wf_entry e"
  obtains d i where "document_id (entry_metadata e) = Some d" "entry_id e = chunk_id d i"
  using assms by (auto simp: wf_entry_def split: option.splits)

lemma remove_document_collection:
  assumes "wf_collection (collection p)"
  shows "collection (remove_document p d)
           = filter (\<lambda>e. document_id (entry_metadata e) \<noteq> Some d) (collection p)"
proof -
  let ?c = "collection p"
  let ?ids = "collection_get_where ?c d"
  have ids: "set ?ids = entry_id ` {e \<in> set ?c. document_id (entry_metadata e) = Some d}"
    by (auto simp: collection_get_where_def)
  have keep: "entry_id e \<notin> set ?ids \<longleftrightarrow> document_id (entry_metadata e) \<noteq> Some d"
    if e: "e \<in> set ?c" for e
  proof
    assume "entry_id e \<notin> set ?ids"
    with e ids show "document_id (entry_metadata e) \<noteq> Some d" by auto
  next
    assume ne: "document_id (entry_metadata e) \<noteq> Some d"
    show "entry_id e \<notin> set ?ids"
    proof
      assume "entry_id e \<in> set ?ids"
      with ids obtain e' where e': "e' \<in> set ?c" "document_id (entry_metadata e') = Some d"
        "entry_id e' = entry_id e" by auto
      from assms e e' have w: "wf_entry e" and w': "wf_entry e'"
        by (auto simp: wf_collection_def list_all_iff)
      from w obtain d1 i1 where d1: "document_id (entry_metadata e) = Some d1"
        "entry_id e = chunk_id d1 i1" by (rule wf_entry_id)
      from w' obtain d2 i2 where d2: "document_id (entry_metadata e') = Some d2"
        "entry_id e' = chunk_id d2 i2" by (rule wf_entry_id)
      from d2 e'(2) have "d2 = d" by simp
      with d1(2) d2(2) e'(3) have "chunk_id d1 i1 = chunk_id d i2" by metis
      then have "d1 = d" using chunk_id_inj by blast
      with d1(1) ne show False by simp
    qed
  qed
  have "filter (\<lambda>e. entry_id e \<notin> set ?ids) ?c
      = filter (\<lambda>e. document_id (entry_metadata e) \<noteq> Some d) ?c"
    using keep by (intro filter_cong) auto
  moreover have "filter (\<lambda>e. document_id (entry_metadata e) \<noteq> Some d) ?c = ?c" if "?ids = []"
    using that by (auto simp: collection_get_where_def filter_empty_conv filter_id_conv)
  ultimately show ?thesis
    by (simp add: remove_document_def collection_delete_def Let_def)
qed

lemma store_chunks_result:
  assumes res: "store_chunks p d name chunks = (Inr (), p')"
    and wf: "wf_collection (collection p)"
    and none: "document_entries (collection p) d = []"
  shows "\<exists>new. collection p' = collection p @ new
           \<and> map entry_document new = filter (\<lambda>chunk. str_strip chunk \<noteq> []) chunks
           \<and> list_all wf_entry new
           \<and> list_all (\<lambda>e. document_id (entry_metadata e) = Some d) new"
proof -
  let ?valid = "filter (\<lambda>chunk. str_strip chunk \<noteq> []) chunks"
  let ?n = "length ?valid"
  show ?thesis
  proof (cases "?valid = []")
    case True
    with res have "p' = p" by (auto simp: store_chunks_def Let_def split: if_splits)
    with True show ?thesis by simp
  next
    case False
    then have ne: "chunks \<noteq> []" by auto
    obtain r p1 where emb: "embed_chunks p ?valid = (r, p1)" by (cases "embed_chunks p ?valid")
    then have c1: "collection p1 = collection p" by (rule embed_chunks_collection)
    let ?ids = "map (chunk_id d) [0 ..< ?n]"
    let ?metas = "map (\<lambda>i. \<lparr>document_id = Some d, document_name = Some name,
                              chunk_index = Some i\<rparr>) [0 ..< ?n]"
    from res False ne emb obtain embs c where r: "r = Inr embs"
      and add: "collection_add (collection p1) embs ?valid ?metas ?ids = Inr c"
      and p': "p' = p1\<lparr>collection := c\<rparr>"
      by (auto simp: store_chunks_def Let_def split: sum.splits)
    let ?new = "map (\<lambda>i. \<lparr>entry_id = ?ids ! i, entry_embedding = embs ! i,
                  entry_document = ?valid ! i, entry_metadata = ?metas ! i\<rparr>) [0 ..< length ?ids]"
    from add have c: "c = collection p @ filter (\<lambda>e. entry_id e \<notin> set (map entry_id (collection p))) ?new"
      by (auto simp: collection_add_def c1 split: if_splits)
    have fresh: "entry_id e \<notin> set (map entry_id (collection p))" if "e \<in> set ?new" for e
    proof
      assume old: "entry_id e \<in> set (map entry_id (collection p))"
      from that obtain i where i: "i < ?n" "entry_id e = chunk_id d i" by auto
      from old obtain e' where e': "e' \<in> set (collection p)" "entry_id e' = entry_id e" by auto
      with wf have "wf_entry e'" by (auto simp: wf_collection_def list_all_iff)
      then obtain d1 i1 where d1: "document_id (entry_metadata e') = Some d1"
        "entry_id e' = chunk_id d1 i1" by (rule wf_entry_id)
      from i(2) e'(2) d1(2) have "chunk_id d1 i1 = chunk_id d i" by metis
      then have "d1 = d" using chunk_id_inj by blast
      with d1 e'(1) have "e' \<in> set (document_entries (collection p) d)"
        by (simp add: document_entries_def)
      with none show False by simp
    qed
    then have "filter (\<lambda>e. entry_id e \<notin> set (map entry_id (collection p))) ?new = ?new"
      by (simp add: filter_id_conv)
    with c p' have "collection p' = collection p @ ?new" by simp
    moreover have "map entry_document ?new = ?valid"
      by (simp add: comp_def map_nth)
    moreover have "list_all wf_entry ?new"
      by (simp add: list_all_iff wf_entry_def)
    moreover have "list_all (\<lambda>e. document_id (entry_metadata e) = Some d) ?new"
      by (simp add: list_all_iff)
    ultimately show ?thesis by blast
  qed
qed

section \<open>Ingesting a document again\<close>

lemma reingest_core:
  assumes wf: "wf_collection (collection p)"
    and ch: "document_chunks raw_text = Some chunks"
    and res: "add_document (remove_document p d) d name raw_text = Some (Inr (), p')"
  shows "map entry_document (document_entries (collection p') d)
           = filter (\<lambda>chunk. str_strip chunk \<noteq> []) chunks"
    and "d' \<noteq> d \<Longrightarrow> document_entries (collection p') d' = document_entries (collection p) d'"
    and "wf_collection (collection p')"
proof -
  let ?p1 = "remove_document p d"
  have c1: "collection ?p1 = filter (\<lambda>e. document_id (entry_metadata e) \<noteq> Some d) (collection p)"
    using wf by (rule remove_document_collection)
  have wf1: "wf_collection (collection ?p1)"
    using wf by (simp add: c1 wf_collection_def list_all_iff)
  have none: "document_entries (collection ?p1) d = []"
    by (simp add: c1 document_entries_def)
  from res ch have "store_chunks ?p1 d name chunks = (Inr (), p')"
    by (simp add: add_document_def)
  from store_chunks_result [OF this wf1 none] obtain new where
    c': "collection p' = collection ?p1 @ new"
    and docs: "map entry_document new = filter (\<lambda>chunk. str_strip chunk \<noteq> []) chunks"
    and wfn: "list_all wf_entry new"
    and dn: "list_all (\<lambda>e. document_id (entry_metadata e) = Some d) new"
    by blast
  from dn have all: "filter (\<lambda>e. document_id (entry_metadata e) = Some d) new = new"
    by (simp add: list_all_iff filter_id_conv)
  show "map entry_document (document_entries (collection p') d)
           = filter (\<lambda>chunk. str_strip chunk \<noteq> []) chunks"
    using none all docs by (simp add: c' document_entries_def)
  show "wf_collection (collection p')"
    using wf1 wfn by (simp add: c' wf_collection_def)
  show "document_entries (collection p') d' = document_entries (collection p) d'" if "d' \<noteq> d"
  proof -
    from dn that have "filter (\<lambda>e. document_id (entry_metadata e) = Some d') new = []"
      by (auto simp: list_all_iff filter_empty_conv)
    moreover have "filter (\<lambda>e. document_id (entry_metadata e) = Some d')
        (filter (\<lambda>e. document_id (entry_metadata e) \<noteq> Some d) (collection p))
        = filter (\<lambda>e. document_id (entry_metadata e) = Some d') (collection p)"
      using that by (auto intro: filter_cong)
    ultimately show ?thesis by (simp add: c' c1 document_entries_def)
  qed
qed

text \<open>
  Claim C1 says that calling \<^verbatim>\<open>addDocument\<close> for a document id removes all prior chunks
  of that id before the new chunks are added.  \<^verbatim>\<open>add_document\<close> removes nothing: on
  the store with the four chunks of the document \<open>a\<close>, adding the document \<open>a\<close> again
  with a new text of one chunk leaves the four chunks of the old version where they were.
\<close>

theorem add_document_keeps_old_chunks:
  "map entry_document (document_entries (collection weak_pipeline) ''a'')
     = [''The sky is blue.'', ''Grass is green.'', ''Snow is white.'', ''Coal is black.'']
   \<and> map_option (\<lambda>r. map entry_document (document_entries (collection (snd r)) ''a''))
         (add_document weak_pipeline ''a'' ''Doc A'' ''New text.'')
       = Some [''The sky is blue.'', ''Grass is green.'', ''Snow is white.'', ''Coal is black.'']"
proof -
  have "map entry_document (document_entries (collection weak_pipeline) ''a'')
     = [''The sky is blue.'', ''Grass is green.'', ''Snow is white.'', ''Coal is black.'']"
    by (simp add: weak_pipeline_def doc_a_collection_def doc_a_entry_def document_entries_def)
  moreover have "map_option (\<lambda>r. map entry_document (document_entries (collection (snd r)) ''a''))
         (add_document weak_pipeline ''a'' ''Doc A'' ''New text.'')
       = Some [''The sky is blue.'', ''Grass is green.'', ''Snow is white.'', ''Coal is black.'']"
    by code_simp
  ultimately show ?thesis by simp
qed

text \<open>
  Claim C1, amended: ingesting a document again is a replace, and is idempotent, in the
  sequence that the endpoint \<^verbatim>\<open>add_documents\<close> runs, \<^verbatim>\<open>remove_document(id)\<close> and then
  \<^verbatim>\<open>add_document(id, name, content)\<close>.  On a collection whose ids are the ones that
  \<^verbatim>\<open>add_document\<close> gives, when the sequence returns without raising, the chunks that
  the collection holds for the id are the chunks of the new content that are not only
  white space, in their order; what it holds for every other document is unchanged; and
  running the sequence again with the same content leaves the same chunks, so the same
  number of them.  \<^verbatim>\<open>add_document\<close> on its own removes nothing.
\<close>

theorem reingest_replaces:
  assumes "wf_collection (collection p)"
    and "document_chunks raw_text = Some chunks"
    and "add_document (remove_document p d) d name raw_text = Some (Inr (), p')"
  shows "map entry_document (document_entries (collection p') d)
           = filter (\<lambda>chunk. str_strip chunk \<noteq> []) chunks
         \<and> (\<forall>d'. d' \<noteq> d \<longrightarrow>
               document_entries (collection p') d' = document_entries (collection p) d')
         \<and> wf_collection (collection p')
         \<and> (\<forall>p''. add_document (remove_document p' d) d name raw_text = Some (Inr (), p'') \<longrightarrow>
               map entry_document (document_entries (collection p'') d)
                 = map entry_document (document_entries (collection p') d))"
proof -
  note first = reingest_core [OF assms]
  have "map entry_document (document_entries (collection p'') d)
      = map entry_document (document_entries (collection p') d)"
    if "add_document (remove_document p' d) d name raw_text = Some (Inr (), p'')" for p''
    using reingest_core(1) [OF first(3) assms(2) that] first(1) by simp
  with first show ?thesis by blast
qed

lemma wf_weak_pipeline: "wf_collection (collection weak_pipeline)"
  by (simp add: weak_pipeline_def doc_a_collection_def doc_a_entry_def wf_collection_def wf_entry_def)

lemma reingest_weak_pipeline:
  "add_document (remove_document weak_pipeline ''a'') ''a'' ''Doc A'' ''New text.''
     = Some (Inr (), reingested_pipeline)"
proof -
  have "collection (remove_document weak_pipeline ''a'') = []"
    by (simp add: remove_document_collection [OF wf_weak_pipeline])
      (simp add: weak_pipeline_def doc_a_collection_def doc_a_entry_def)
  moreover have "remove_document weak_pipeline ''a''
      = weak_pipeline\<lparr>collection := collection (remove_document weak_pipeline ''a'')\<rparr>"
    by (simp add: remove_document_def Let_def)
  ultimately have r: "remove_document weak_pipeline ''a'' = weak_pipeline\<lparr>collection := []\<rparr>"
    by simp
  have s: "str_strip ''New text.'' = ''New text.''" by code_simp
  have "document_chunks ''New text.'' = Some [''New text.'']"
    by (simp add: document_chunks_def s)
  then have "add_document (weak_pipeline\<lparr>collection := []\<rparr>) ''a'' ''Doc A'' ''New text.''
     = Some (Inr (), reingested_pipeline)"
    by (simp add: add_document_def store_chunks_def s embed_chunks_def weak_pipeline_def
        length_model_def collection_add_def reingested_pipeline_def Let_def)
  then show ?thesis by (simp only: r)
qed

theorem reingest_replaces_witness:
  "wf_collection (collection weak_pipeline)
   \<and> document_chunks ''New text.'' = Some [''New text.'']
   \<and> add_document (remove_document weak_pipeline ''a'') ''a'' ''Doc A'' ''New text.''
       = Some (Inr (), reingested_pipeline)
   \<and> map entry_document (document_entries (collection reingested_pipeline) ''a'') = [''New text.'']
   \<and> wf_collection (collection reingested_pipeline)"
proof -
  have s: "str_strip ''New text.'' = ''New text.''" by code_simp
  have h2: "document_chunks ''New text.'' = Some [''New text.'']"
    by (simp add: document_chunks_def s)
  from reingest_replaces [OF wf_weak_pipeline h2 reingest_weak_pipeline]
  show ?thesis
    by (simp add: wf_weak_pipeline h2 reingest_weak_pipeline s)
qed

section \<open>Batch ingestion\<close>

lemma process_document_empty:
  assumes "get_document_content docs d cr = Inr c" "str_strip c = []"
  shows "process_document docs cr p d = Some (Inl (''Document '' @ d @ '' is empty''), p)"
  using assms by (simp add: process_document_def)

lemma process_document_content_error:
  assumes "get_document_content docs d cr = Inl e"
  shows "process_document docs cr p d = Some (Inl (processing_error d e), p)"
  using assms by (simp add: process_document_def)

lemma str_strip_Nil: "str_strip [] = []"
  by (simp add: str_strip_def)

lemma process_document_metadata_error:
  assumes "get_document_content docs d cr = Inr c" "str_strip c \<noteq> []"
    and "get_document_metadata docs d cr = Inl e"
  shows "process_document docs cr p d = Some (Inl (processing_error d e), p)"
proof -
  from assms(2) have "c \<noteq> []" by (auto simp: str_strip_Nil)
  with assms show ?thesis by (simp add: process_document_def)
qed

lemma process_document_add_error:
  assumes "get_document_content docs d cr = Inr c" "str_strip c \<noteq> []"
    and "get_document_metadata docs d cr = Inr name"
    and "add_document (remove_document p d) d
           (case name of None \<Rightarrow> ''Document '' @ d | Some n \<Rightarrow> n) c = Some (Inl e, p')"
  shows "process_document docs cr p d = Some (Inl (processing_error d e), p')"
proof -
  from assms(2) have "c \<noteq> []" by (auto simp: str_strip_Nil)
  with assms show ?thesis by (simp add: process_document_def)
qed

lemma process_document_added:
  assumes "get_document_content docs d cr = Inr c" "str_strip c \<noteq> []"
    and "get_document_metadata docs d cr = Inr name"
    and "add_document (remove_document p d) d
           (case name of None \<Rightarrow> ''Document '' @ d | Some n \<Rightarrow> n) c = Some (Inr (), p')"
  shows "process_document docs cr p d = Some (Inr (), p')"
proof -
  from assms(2) have "c \<noteq> []" by (auto simp: str_strip_Nil)
  with assms show ?thesis by (simp add: process_document_def)
qed

lemma process_document_hangs:
  assumes "get_document_content docs d cr = Inr c" "str_strip c \<noteq> []"
    and "get_document_metadata docs d cr = Inr name"
    and "add_document (remove_document p d) d
           (case name of None \<Rightarrow> ''Document '' @ d | Some n \<Rightarrow> n) c = None"
  shows "process_document docs cr p d = None"
proof -
  from assms(2) have "c \<noteq> []" by (auto simp: str_strip_Nil)
  with assms show ?thesis by (simp add: process_document_def)
qed

lemma add_documents_loop_error:
  assumes "process_document docs cr p d = Some (Inl msg, p1)"
  shows "add_documents_loop docs cr p n errs (d # ids)
           = add_documents_loop docs cr p1 n (errs @ [msg]) ids"
  using assms by simp

lemma add_documents_loop_added:
  assumes "process_document docs cr p d = Some (Inr (), p1)"
  shows "add_documents_loop docs cr p n errs (d # ids)
           = add_documents_loop docs cr p1 (n + 1) errs ids"
  using assms by simp

lemma add_documents_loop_hangs:
  assumes "process_document docs cr p d = None"
  shows "add_documents_loop docs cr p n errs (d # ids) = None"
  using assms by simp

lemma document_chunks_short: "length raw_text < 3000 \<Longrightarrow> document_chunks raw_text \<noteq> None"
  by (simp add: document_chunks_def)

lemma process_document_returns:
  assumes "\<And>c. get_document_content docs d cr = Inr c \<Longrightarrow> length c < 3000"
  shows "process_document docs cr p d \<noteq> None"
proof (cases "get_document_content docs d cr")
  case (Inl e)
  then show ?thesis by (simp add: process_document_def)
next
  case (Inr c)
  with assms have "document_chunks c \<noteq> None" by (intro document_chunks_short) simp
  then obtain chunks where "document_chunks c = Some chunks" by auto
  with Inr show ?thesis
    by (auto simp: process_document_def add_document_def Let_def
        split: sum.splits option.splits prod.splits)
qed

lemma add_documents_loop_counts:
  assumes "add_documents_loop docs cr p n errs ids = Some (n', errs', p')"
  shows "n' + length errs' = n + length errs + length ids
         \<and> set errs \<subseteq> set errs'
         \<and> (\<forall>d \<in> set ids. (\<exists>c. get_document_content docs d cr = Inr c \<and> str_strip c = [])
               \<longrightarrow> (''Document '' @ d @ '' is empty'') \<in> set errs')
         \<and> (\<forall>d \<in> set ids. \<forall>e. get_document_content docs d cr = Inl e
               \<longrightarrow> processing_error d e \<in> set errs')
         \<and> (\<forall>d \<in> set ids. \<forall>c e. get_document_content docs d cr = Inr c \<and> str_strip c \<noteq> []
               \<and> get_document_metadata docs d cr = Inl e
               \<longrightarrow> processing_error d e \<in> set errs')"
  using assms
proof (induction ids arbitrary: p n errs)
  case Nil
  then show ?case by simp
next
  case (Cons d ids)
  show ?case
  proof (cases "process_document docs cr p d")
    case None
    with Cons.prems show ?thesis by simp
  next
    case (Some r)
    obtain res p1 where r: "r = (res, p1)" by (cases r)
    show ?thesis
    proof (cases res)
      case (Inl msg)
      with Some r Cons.prems
      have "add_documents_loop docs cr p1 n (errs @ [msg]) ids = Some (n', errs', p')" by simp
      from Cons.IH [OF this]
      have IH: "n' + length errs' = n + length (errs @ [msg]) + length ids"
        "set (errs @ [msg]) \<subseteq> set errs'"
        "\<forall>d \<in> set ids. (\<exists>c. get_document_content docs d cr = Inr c \<and> str_strip c = [])
               \<longrightarrow> (''Document '' @ d @ '' is empty'') \<in> set errs'"
        "\<forall>d \<in> set ids. \<forall>e. get_document_content docs d cr = Inl e
               \<longrightarrow> processing_error d e \<in> set errs'"
        "\<forall>d \<in> set ids. \<forall>c e. get_document_content docs d cr = Inr c \<and> str_strip c \<noteq> []
               \<and> get_document_metadata docs d cr = Inl e
               \<longrightarrow> processing_error d e \<in> set errs'"
        by blast+
      have "(''Document '' @ d @ '' is empty'') \<in> set errs'"
        if "get_document_content docs d cr = Inr c" "str_strip c = []" for c
        using process_document_empty [OF that, of p] Some r Inl IH(2) by auto
      moreover have "processing_error d e \<in> set errs'"
        if "get_document_content docs d cr = Inl e" for e
        using process_document_content_error [OF that, of p] Some r Inl IH(2) by auto
      moreover have "processing_error d e \<in> set errs'"
        if "get_document_content docs d cr = Inr c" "str_strip c \<noteq> []"
          "get_document_metadata docs d cr = Inl e" for c e
        using process_document_metadata_error [OF that, of p] Some r Inl IH(2) by auto
      ultimately show ?thesis using IH by auto
    next
      case (Inr u)
      with Some r Cons.prems
      have "add_documents_loop docs cr p1 (n + 1) errs ids = Some (n', errs', p')" by simp
      from Cons.IH [OF this]
      have IH: "n' + length errs' = n + 1 + length errs + length ids"
        "set errs \<subseteq> set errs'"
        "\<forall>d \<in> set ids. (\<exists>c. get_document_content docs d cr = Inr c \<and> str_strip c = [])
               \<longrightarrow> (''Document '' @ d @ '' is empty'') \<in> set errs'"
        "\<forall>d \<in> set ids. \<forall>e. get_document_content docs d cr = Inl e
               \<longrightarrow> processing_error d e \<in> set errs'"
        "\<forall>d \<in> set ids. \<forall>c e. get_document_content docs d cr = Inr c \<and> str_strip c \<noteq> []
               \<and> get_document_metadata docs d cr = Inl e
               \<longrightarrow> processing_error d e \<in> set errs'"
        by blast+
      have False if "get_document_content docs d cr = Inr c" "str_strip c = []" for c
        using process_document_empty [OF that, of p] Some r Inr by simp
      moreover have False if "get_document_content docs d cr = Inl e" for e
        using process_document_content_error [OF that, of p] Some r Inr by simp
      moreover have False
        if "get_document_content docs d cr = Inr c" "str_strip c \<noteq> []"
          "get_document_metadata docs d cr = Inl e" for c e
        using process_document_metadata_error [OF that, of p] Some r Inr by simp
      ultimately show ?thesis using IH by auto
    qed
  qed
qed

lemma add_documents_loop_returns:
  assumes "\<forall>d \<in> set ids. \<forall>c. get_document_content docs d cr = Inr c \<longrightarrow> length c < 3000"
  shows "add_documents_loop docs cr p n errs ids \<noteq> None"
  using assms
proof (induction ids arbitrary: p n errs)
  case Nil
  then show ?case by simp
next
  case (Cons d ids)
  then have "process_document docs cr p d \<noteq> None"
    by (intro process_document_returns) simp
  then obtain res p1 where "process_document docs cr p d = Some (res, p1)" by auto
  with Cons show ?case by (cases res) auto
qed

text \<open>
  What holds of a batch that returns, for a session that is known: every document either
  counts as added or left its message in the list of errors, and the response is built
  from the count and the list, with \<^verbatim>\<open>success\<close> false exactly when the count is 0.  A
  batch returns when every fetched text has fewer than 3000 characters.
\<close>

lemma add_documents_accounts:
  assumes "user_sessions session_id = Some credentials"
  shows "(\<forall>result p'.
            add_documents docs user_sessions p document_ids session_id clear_first
              = Some (result, p') \<longrightarrow>
            (\<exists>n errors.
               n + length errors = length document_ids
               \<and> result = Inr (add_documents_result n errors)
               \<and> added_count (add_documents_result n errors) = n
               \<and> (success (add_documents_result n errors) \<longleftrightarrow> n \<noteq> 0)
               \<and> (\<forall>d \<in> set document_ids.
                     (\<exists>c. get_document_content docs d credentials = Inr c \<and> str_strip c = [])
                     \<longrightarrow> (''Document '' @ d @ '' is empty'') \<in> set errors)
               \<and> (\<forall>d \<in> set document_ids. \<forall>e.
                     get_document_content docs d credentials = Inl e
                     \<longrightarrow> processing_error d e \<in> set errors)
               \<and> (\<forall>d \<in> set document_ids. \<forall>c e.
                     get_document_content docs d credentials = Inr c \<and> str_strip c \<noteq> []
                     \<and> get_document_metadata docs d credentials = Inl e
                     \<longrightarrow> processing_error d e \<in> set errors)))
         \<and> ((\<forall>d \<in> set document_ids. \<forall>c.
               get_document_content docs d credentials = Inr c \<longrightarrow> length c < 3000)
             \<longrightarrow> add_documents docs user_sessions p document_ids session_id clear_first \<noteq> None)"
proof -
  define p1 where "p1 = (if clear_first then clear_all_documents p else p)"
  have run: "add_documents docs user_sessions p document_ids session_id clear_first =
      (case add_documents_loop docs credentials p1 0 [] document_ids of
         None \<Rightarrow> None
       | Some (n, errors, p2) \<Rightarrow> Some (Inr (add_documents_result n errors), p2))"
    using assms by (simp add: add_documents_def p1_def Let_def)
  have "\<exists>n errors.
               n + length errors = length document_ids
               \<and> result = Inr (add_documents_result n errors)
               \<and> added_count (add_documents_result n errors) = n
               \<and> (success (add_documents_result n errors) \<longleftrightarrow> n \<noteq> 0)
               \<and> (\<forall>d \<in> set document_ids.
                     (\<exists>c. get_document_content docs d credentials = Inr c \<and> str_strip c = [])
                     \<longrightarrow> (''Document '' @ d @ '' is empty'') \<in> set errors)
               \<and> (\<forall>d \<in> set document_ids. \<forall>e.
                     get_document_content docs d credentials = Inl e
                     \<longrightarrow> processing_error d e \<in> set errors)
               \<and> (\<forall>d \<in> set document_ids. \<forall>c e.
                     get_document_content docs d credentials = Inr c \<and> str_strip c \<noteq> []
                     \<and> get_document_metadata docs d credentials = Inl e
                     \<longrightarrow> processing_error d e \<in> set errors)"
    if "add_documents docs user_sessions p document_ids session_id clear_first = Some (result, p')"
    for result p'
  proof -
    from that obtain n errors where
      loop: "add_documents_loop docs credentials p1 0 [] document_ids = Some (n, errors, p')"
      and res: "result = Inr (add_documents_result n errors)"
      unfolding run by (auto split: option.splits)
    from add_documents_loop_counts [OF loop]
    have "n + length errors = length document_ids"
      "\<forall>d \<in> set document_ids.
          (\<exists>c. get_document_content docs d credentials = Inr c \<and> str_strip c = [])
          \<longrightarrow> (''Document '' @ d @ '' is empty'') \<in> set errors"
      "\<forall>d \<in> set document_ids. \<forall>e.
          get_document_content docs d credentials = Inl e
          \<longrightarrow> processing_error d e \<in> set errors"
      "\<forall>d \<in> set document_ids. \<forall>c e.
          get_document_content docs d credentials = Inr c \<and> str_strip c \<noteq> []
          \<and> get_document_metadata docs d credentials = Inl e
          \<longrightarrow> processing_error d e \<in> set errors"
      by (simp, blast+)
    moreover have "added_count (add_documents_result n errors) = n"
      "success (add_documents_result n errors) \<longleftrightarrow> n \<noteq> 0"
      by (simp_all add: add_documents_result_def)
    ultimately show ?thesis using res by blast
  qed
  moreover have "add_documents docs user_sessions p document_ids session_id clear_first \<noteq> None"
    if "\<forall>d \<in> set document_ids. \<forall>c.
          get_document_content docs d credentials = Inr c \<longrightarrow> length c < 3000"
    using add_documents_loop_returns [OF that, of p1 0 "[]"]
    unfolding run by (auto split: option.splits)
  ultimately show ?thesis by blast
qed

text \<open>The batch of three documents of which one is empty: two are added, one error.\<close>

lemma add_documents_three_docs:
  "[''s'' \<mapsto> ()] ''s'' = Some ()
   \<and> map_option fst (add_documents three_docs [''s'' \<mapsto> ()] blank_pipeline [''a'', ''b'', ''c''] ''s'' False)
       = Some (Inr \<lparr>success = True,
                    message = ''Successfully added 2 document(s) to knowledge base. Errors: 1'',
                    added_count = 2\<rparr>)
   \<and> add_documents three_docs [''s'' \<mapsto> ()] blank_pipeline [''a'', ''b'', ''c''] ''s'' False \<noteq> None"
proof -
  have h: "[''s'' \<mapsto> ()] ''s'' = Some ()" by simp
  have short: "\<forall>d \<in> set [''a'', ''b'', ''c'']. \<forall>c.
      get_document_content three_docs d () = Inr c \<longrightarrow> length c < 3000"
    by (auto simp: three_docs_def)
  have ev: "map_option fst
      (add_documents three_docs [''s'' \<mapsto> ()] blank_pipeline [''a'', ''b'', ''c''] ''s'' False)
       = Some (Inr \<lparr>success = True,
                    message = ''Successfully added 2 document(s) to knowledge base. Errors: 1'',
                    added_count = 2\<rparr>)"
    by code_simp
  from add_documents_accounts
    [where user_sessions = "[''s'' \<mapsto> ()]" and session_id = "''s''" and credentials = "()"
      and docs = three_docs and p = blank_pipeline and document_ids = "[''a'', ''b'', ''c'']"
      and clear_first = False, OF h]
    short
  have "add_documents three_docs [''s'' \<mapsto> ()] blank_pipeline [''a'', ''b'', ''c''] ''s'' False \<noteq> None"
    by blast
  with h ev show ?thesis by simp
qed

lemma str_strip_id:
  assumes "s \<noteq> []" "\<not> isspace (hd s)" "\<not> isspace (last s)"
  shows "str_strip s = s"
proof -
  from assms(1,2) have "dropWhile isspace s = s" by (cases s) simp_all
  moreover from assms(1,3) have "dropWhile isspace (rev s) = rev s"
    by (cases "rev s") (simp_all add: hd_rev [symmetric])
  ultimately show ?thesis by (simp add: str_strip_def)
qed

lemma str_strip_long_sentence: "str_strip long_sentence = long_sentence"
  by (rule str_strip_id) (simp_all add: long_sentence_def isspace_def)

lemma process_document_long_sentence: "process_document long_docs () p ''a'' = None"
proof -
  have "long_sentence \<noteq> []" by (simp add: long_sentence_def)
  then show ?thesis
    by (intro process_document_hangs [where c = long_sentence and name = "Some ''Doc a''"])
      (simp_all add: long_docs_def str_strip_long_sentence add_document_long_sentence)
qed

text \<open>
  Claim C6: batch ingestion aggregates the errors: for every batch, a failure on one
  document is recorded and does not stop the processing of the remaining documents, and
  the response reports the count of added documents and the errors.  On the batch of the
  documents \<open>a\<close> and \<open>b\<close>, where the text of \<open>a\<close> is the one of 3002 characters on
  which the chunking loop never returns, \<^verbatim>\<open>add_documents\<close> never returns: there is no
  response, and the document \<open>b\<close>, which is added when it is submitted alone, is never
  processed.
\<close>

theorem batch_ingestion_hangs:
  "get_document_content long_docs ''a'' ()
     = Inr (replicate 300 (CHR ''a'') @ ''. '' @ replicate 2700 (CHR ''a''))
   \<and> add_documents long_docs [''s'' \<mapsto> ()] blank_pipeline [''a'', ''b''] ''s'' False = None
   \<and> map_option fst (add_documents long_docs [''s'' \<mapsto> ()] blank_pipeline [''b''] ''s'' False)
       = Some (Inr \<lparr>success = True,
                    message = ''Successfully added 1 document(s) to knowledge base'',
                    added_count = 1\<rparr>)"
proof -
  have "get_document_content long_docs ''a'' ()
     = Inr (replicate 300 (CHR ''a'') @ ''. '' @ replicate 2700 (CHR ''a''))"
    by (simp add: long_docs_def long_sentence_def)
  moreover have "add_documents long_docs [''s'' \<mapsto> ()] blank_pipeline [''a'', ''b''] ''s'' False
      = None"
    by (simp add: add_documents_def process_document_long_sentence)
  moreover have "map_option fst
      (add_documents long_docs [''s'' \<mapsto> ()] blank_pipeline [''b''] ''s'' False)
       = Some (Inr \<lparr>success = True,
                    message = ''Successfully added 1 document(s) to knowledge base'',
                    added_count = 1\<rparr>)"
    by code_simp
  ultimately show ?thesis by simp
qed

end
